theory Spec2Isabelle
  imports Complex_Main
begin

section \<open>Double-precision numbers\<close>

text \<open>
  The score engine of \<^verbatim>\<open>src/server/scoreCalculator.js\<close> computes with the numbers of
  JavaScript, the binary64 format of IEEE 754. A finite double is a real number of the
  form \<open>m * 2 powi k\<close> with \<open>\<bar>m\<bar> < 2 ^ 53\<close> and \<open>- 1074 \<le> k\<close>; every arithmetic operation
  gives the double nearest to the exact result, the one with an even significand when
  two are equally near.

  \<open>bits n\<close> is the number of binary digits of \<open>n\<close>, and \<open>expo x\<close> the exponent of a real
  number that is not zero: \<open>2 powi expo x \<le> \<bar>x\<bar> < 2 powi (expo x + 1)\<close>.
\<close>

fun bits :: "nat \<Rightarrow> nat" where
  "bits n = (if n = 0 then 0 else Suc (bits (n div 2)))"

definition expo :: "real \<Rightarrow> int" where
  "expo x = (if 1 \<le> \<bar>x\<bar> then int (bits (nat \<lfloor>\<bar>x\<bar>\<rfloor>)) - 1
             else - int (bits (nat (\<lceil>1 / \<bar>x\<bar>\<rceil> - 1))))"

text \<open>The integer nearest to \<open>y\<close>, the even one at a tie.\<close>

definition rne :: "real \<Rightarrow> int" where
  "rne y = (let f = \<lfloor>y\<rfloor>; d = y - of_int f
            in if d < 1 / 2 then f else if 1 / 2 < d then f + 1
               else if even f then f else f + 1)"

text \<open>
  The double nearest to \<open>x\<close>, were the exponent range unbounded above: the spacing of the
  doubles around \<open>x\<close> is \<open>2 powi (expo x - 52)\<close>, and \<open>2 powi (- 1074)\<close> in the subnormal
  range. A decimal literal of the source denotes the double nearest to it: \<^verbatim>\<open>0.01\<close> is
  \<open>fl 0.01\<close>.
\<close>

definition fl :: "real \<Rightarrow> real" where
  "fl x = (let e = max (expo x) (- 1022); q = 2 powi (e - 52)
           in of_int (rne (x / q)) * q)"

text \<open>
  A number of the language is a finite double, an infinity or \<^verbatim>\<open>NaN\<close>. The sign of
  zero is not represented: no operation of the engine distinguishes \<^verbatim>\<open>-0\<close> from \<^verbatim>\<open>0\<close>.
  A result whose rounding reaches \<open>2 powi 1024\<close> overflows to an infinity.
\<close>

datatype jsnum = Fin real | PosInf | NegInf | NaN

definition round_double :: "real \<Rightarrow> jsnum" where
  "round_double x =
     (let y = fl x
      in if 2 powi 1024 \<le> \<bar>y\<bar> then (if 0 < x then PosInf else NegInf) else Fin y)"

text \<open>The operators \<^verbatim>\<open>+\<close>, unary \<^verbatim>\<open>-\<close>, binary \<^verbatim>\<open>-\<close> and \<^verbatim>\<open>*\<close> on two numbers, \<^verbatim>\<open>Math.abs\<close>,
  and \<^verbatim>\<open><\<close>; a comparison with \<^verbatim>\<open>NaN\<close> is false.\<close>

fun num_add :: "jsnum \<Rightarrow> jsnum \<Rightarrow> jsnum" where
  "num_add (Fin x) (Fin y) = round_double (x + y)"
| "num_add NaN b = NaN"
| "num_add a NaN = NaN"
| "num_add PosInf NegInf = NaN"
| "num_add NegInf PosInf = NaN"
| "num_add PosInf b = PosInf"
| "num_add NegInf b = NegInf"
| "num_add a PosInf = PosInf"
| "num_add a NegInf = NegInf"

fun num_neg :: "jsnum \<Rightarrow> jsnum" where
  "num_neg (Fin x) = Fin (- x)"
| "num_neg PosInf = NegInf"
| "num_neg NegInf = PosInf"
| "num_neg NaN = NaN"

definition num_sub :: "jsnum \<Rightarrow> jsnum \<Rightarrow> jsnum" where
  "num_sub a b = num_add a (num_neg b)"

fun num_mul :: "jsnum \<Rightarrow> jsnum \<Rightarrow> jsnum" where
  "num_mul (Fin x) (Fin y) = round_double (x * y)"
| "num_mul NaN b = NaN"
| "num_mul a NaN = NaN"
| "num_mul PosInf (Fin y) = (if y = 0 then NaN else if 0 < y then PosInf else NegInf)"
| "num_mul NegInf (Fin y) = (if y = 0 then NaN else if 0 < y then NegInf else PosInf)"
| "num_mul (Fin x) PosInf = (if x = 0 then NaN else if 0 < x then PosInf else NegInf)"
| "num_mul (Fin x) NegInf = (if x = 0 then NaN else if 0 < x then NegInf else PosInf)"
| "num_mul PosInf PosInf = PosInf"
| "num_mul PosInf NegInf = NegInf"
| "num_mul NegInf PosInf = NegInf"
| "num_mul NegInf NegInf = PosInf"

fun math_abs :: "jsnum \<Rightarrow> jsnum" where
  "math_abs (Fin x) = Fin \<bar>x\<bar>"
| "math_abs PosInf = PosInf"
| "math_abs NegInf = PosInf"
| "math_abs NaN = NaN"

fun num_less :: "jsnum \<Rightarrow> jsnum \<Rightarrow> bool" where
  "num_less (Fin x) (Fin y) = (x < y)"
| "num_less NaN b = False"
| "num_less a NaN = False"
| "num_less PosInf b = False"
| "num_less a NegInf = False"
| "num_less a PosInf = True"
| "num_less NegInf b = True"

text \<open>
  \<^verbatim>\<open>Math.round\<close> gives the integer closest to its argument, the greater one when two
  are equally close; the result is exact. \<^verbatim>\<open>x / 100\<close> is rounded to a double.
\<close>

fun math_round :: "jsnum \<Rightarrow> jsnum" where
  "math_round (Fin x) = Fin (of_int \<lfloor>x + 1 / 2\<rfloor>)"
| "math_round n = n"

fun div_100 :: "jsnum \<Rightarrow> jsnum" where
  "div_100 (Fin x) = round_double (x / 100)"
| "div_100 n = n"

text \<open>\<^verbatim>\<open>Math.abs(totalWeight - 1.0) > 0.01\<close>, on the number of \<^verbatim>\<open>totalWeight\<close>.\<close>

definition exceeds_tolerance :: "jsnum \<Rightarrow> bool" where
  "exceeds_tolerance totalWeight =
     num_less (Fin (fl 0.01)) (math_abs (num_sub totalWeight (Fin 1.0)))"

section \<open>JavaScript values\<close>

text \<open>
  The engine receives plain objects: the body of a JSON request, or a database row. A
  property of such an object holds \<^verbatim>\<open>null\<close>, a boolean, a number or a string; reading a
  property that is absent gives \<^verbatim>\<open>undefined\<close>. An object is therefore a map from
  property names to scalar values, and \<open>None\<close> is \<^verbatim>\<open>undefined\<close>. A number held by an
  object is finite.
\<close>

datatype json = JNull | JBool bool | JNum real | JStr string

type_synonym obj = "string \<rightharpoonup> json"

text \<open>The values of expressions: a computed number can also be an infinity or \<^verbatim>\<open>NaN\<close>.\<close>

datatype jsval = VNull | VBool bool | VNum jsnum | VStr string

fun val :: "json \<Rightarrow> jsval" where
  "val JNull = VNull"
| "val (JBool b) = VBool b"
| "val (JNum x) = VNum (Fin x)"
| "val (JStr s) = VStr s"

text \<open>
  The conversions between strings and numbers are the host's (\<^verbatim>\<open>Number::toString\<close> and
  the \<^verbatim>\<open>StringToNumber\<close> of the language). The engine uses them only when a string
  took part in an arithmetic expression; they are parameters of the model. One fact
  about \<^verbatim>\<open>StringToNumber\<close> is fixed: a numeric string consists of white space, digits,
  signs, a point, the letters of \<^verbatim>\<open>Infinity\<close>, an exponent mark, and the prefixes and
  digits of the binary, octal and hexadecimal forms, so a string with any of the letters
  \<^verbatim>\<open>g h j k l m p q r s u v w z\<close> converts to \<^verbatim>\<open>NaN\<close>.
\<close>

record js_host =
  numberToString :: "jsnum \<Rightarrow> string"
  stringToNumber :: "string \<Rightarrow> jsnum"

definition never_numeric :: "char \<Rightarrow> bool" where
  "never_numeric c = (c \<in> set ''ghjklmpqrsuvwz'')"

definition string_number :: "js_host \<Rightarrow> string \<Rightarrow> jsnum" where
  "string_number h s = (if list_ex never_numeric s then NaN else stringToNumber h s)"

text \<open>\<^verbatim>\<open>ToString\<close> and \<^verbatim>\<open>ToNumber\<close> on scalars.\<close>

fun toString :: "js_host \<Rightarrow> jsval \<Rightarrow> string" where
  "toString h VNull = ''null''"
| "toString h (VBool b) = (if b then ''true'' else ''false'')"
| "toString h (VNum n) = numberToString h n"
| "toString h (VStr s) = s"

fun toNumber :: "js_host \<Rightarrow> jsval \<Rightarrow> jsnum" where
  "toNumber h VNull = Fin 0"
| "toNumber h (VBool b) = Fin (if b then 1 else 0)"
| "toNumber h (VNum n) = n"
| "toNumber h (VStr s) = string_number h s"

text \<open>
  The operator \<^verbatim>\<open>+\<close> on values: concatenation as soon as one operand is a string,
  addition of the operands' numbers otherwise (\<^verbatim>\<open>null\<close> is 0, \<^verbatim>\<open>true\<close> is 1).
\<close>

fun js_add :: "js_host \<Rightarrow> jsval \<Rightarrow> jsval \<Rightarrow> jsval" where
  "js_add h (VStr s) b = VStr (s @ toString h b)"
| "js_add h a (VStr t) = VStr (toString h a @ t)"
| "js_add h a b = VNum (num_add (toNumber h a) (toNumber h b))"

text \<open>\<^verbatim>\<open>v || 0\<close>: the falsy values are \<^verbatim>\<open>undefined\<close>, \<^verbatim>\<open>null\<close>, \<^verbatim>\<open>false\<close>, 0 and the
  empty string.\<close>

fun or_zero :: "json option \<Rightarrow> jsval" where
  "or_zero None = VNum (Fin 0)"
| "or_zero (Some JNull) = VNum (Fin 0)"
| "or_zero (Some (JBool b)) = (if b then VBool True else VNum (Fin 0))"
| "or_zero (Some (JNum x)) = (if x = 0 then VNum (Fin 0) else VNum (Fin x))"
| "or_zero (Some (JStr s)) = (if s = [] then VNum (Fin 0) else VStr s)"

text \<open>\<^verbatim>\<open>typeof v !== 'number'\<close>, for a value that is not \<^verbatim>\<open>undefined\<close>.\<close>

fun not_number :: "json \<Rightarrow> bool" where
  "not_number (JNum x) = False"
| "not_number v = True"

text \<open>\<^verbatim>\<open>v < lo || v > hi\<close> once \<^verbatim>\<open>v\<close> is known to be a number.\<close>

fun outside :: "real \<Rightarrow> real \<Rightarrow> json \<Rightarrow> bool" where
  "outside lo hi (JNum x) = (x < lo \<or> x > hi)"
| "outside lo hi v = False"

text \<open>\<^verbatim>\<open>v === undefined || v === null\<close>.\<close>

fun absent :: "json option \<Rightarrow> bool" where
  "absent None = True"
| "absent (Some JNull) = True"
| "absent (Some v) = False"

section \<open>The validators\<close>

record validation =
  isValid :: bool
  errors :: "string list"

subsection \<open>validateAIScore\<close>

definition required :: "string list" where
  "required = [''user_id'', ''challenge_id'', ''ai_score'', ''code_quality'',
     ''testing_rate'', ''logic_score'', ''clarity_score'']"

definition scoreFields :: "string list" where
  "scoreFields = [''ai_score'', ''code_quality'', ''testing_rate'', ''logic_score'',
     ''clarity_score'', ''efficiency_score'', ''api_ui_score'', ''edge_cases_score'',
     ''creativity_score'']"

text \<open>The two \<^verbatim>\<open>for ... of\<close> loops; \<open>errs\<close> is the array the loop pushes to.\<close>

fun check_required :: "obj \<Rightarrow> string list \<Rightarrow> string list \<Rightarrow> string list" where
  "check_required aiScore [] errs = errs"
| "check_required aiScore (field # rest) errs =
     check_required aiScore rest
       (if absent (aiScore field)
        then errs @ [''Missing required field: '' @ field]
        else errs)"

fun check_scores :: "obj \<Rightarrow> string list \<Rightarrow> string list \<Rightarrow> string list" where
  "check_scores aiScore [] errs = errs"
| "check_scores aiScore (field # rest) errs =
     check_scores aiScore rest
       (case aiScore field of
          None \<Rightarrow> errs
        | Some v \<Rightarrow>
            if v \<noteq> JNull
            then (if not_number v \<or> outside 0 100 v
                  then errs @ [field @ '' must be a number between 0 and 100'']
                  else errs)
            else errs)"

definition validateAIScore :: "obj \<Rightarrow> validation" where
  "validateAIScore aiScore =
     (let errs = check_required aiScore required [];
          errs = check_scores aiScore scoreFields errs
      in \<lparr>isValid = (length errs = 0), errors = errs\<rparr>)"

subsection \<open>validateCriteria\<close>

definition weightFields :: "string list" where
  "weightFields = [''logic_weight'', ''clarity_weight'', ''testing_weight'',
     ''efficiency_weight'', ''api_ui_weight'', ''edge_cases_weight'', ''creativity_weight'']"

fun check_weights :: "obj \<Rightarrow> string list \<Rightarrow> string list \<Rightarrow> string list" where
  "check_weights criteria [] errs = errs"
| "check_weights criteria (field # rest) errs =
     check_weights criteria rest
       (case criteria field of
          None \<Rightarrow> errs
        | Some v \<Rightarrow>
            if v \<noteq> JNull
            then (if not_number v \<or> outside 0 1 v
                  then errs @ [field @ '' must be a number between 0 and 1'']
                  else errs)
            else errs)"

text \<open>\<^verbatim>\<open>weightFields.reduce((sum, field) => sum + (criteria[field] || 0), 0)\<close>\<close>

definition totalWeight :: "js_host \<Rightarrow> obj \<Rightarrow> jsval" where
  "totalWeight h criteria =
     foldl (\<lambda>sum field. js_add h sum (or_zero (criteria field))) (VNum (Fin 0)) weightFields"

definition validateCriteria :: "js_host \<Rightarrow> obj \<Rightarrow> validation" where
  "validateCriteria h criteria =
     (let errs = check_weights criteria weightFields [];
          totalW = totalWeight h criteria;
          errs = (if exceeds_tolerance (toNumber h totalW)
                  then errs @ [''Total weight must equal 1.0, got '' @ toString h totalW]
                  else errs)
      in \<lparr>isValid = (length errs = 0), errors = errs\<rparr>)"

section \<open>The score aggregator\<close>

text \<open>Destructuring with a default value: the default replaces \<^verbatim>\<open>undefined\<close> only.\<close>

fun with_default :: "json \<Rightarrow> json option \<Rightarrow> json" where
  "with_default d None = d"
| "with_default d (Some v) = v"

text \<open>\<^verbatim>\<open>ToNumber\<close> of a value that may be \<^verbatim>\<open>undefined\<close>.\<close>

fun toNumber_opt :: "js_host \<Rightarrow> json option \<Rightarrow> jsnum" where
  "toNumber_opt h None = NaN"
| "toNumber_opt h (Some v) = toNumber h (val v)"

text \<open>The source writes \<^verbatim>\<open>Math.round(v * 100) / 100\<close> for each of the eight stored values.\<close>

definition round_2dp :: "jsnum \<Rightarrow> jsnum" where
  "round_2dp v = div_100 (math_round (num_mul v (Fin 100)))"

record breakdown_item =
  score :: "json option"
  weight :: json
  contribution :: jsnum

record breakdown_rec =
  logic :: breakdown_item
  clarity :: breakdown_item
  testing :: breakdown_item
  efficiency :: breakdown_item
  apiUi :: breakdown_item
  edgeCases :: breakdown_item
  creativity :: breakdown_item

record calculation =
  finalScore_calc :: jsnum
  logicContribution :: jsnum
  clarityContribution :: jsnum
  testingContribution :: jsnum
  efficiencyContribution :: jsnum
  apiUiContribution :: jsnum
  edgeCasesContribution :: jsnum
  creativityContribution :: jsnum
  breakdown :: breakdown_rec

text \<open>
  A thrown \<^verbatim>\<open>Error\<close> is the left summand and carries the message. The three sub-scores
  without a default may be \<^verbatim>\<open>undefined\<close>; their product with a weight is then \<^verbatim>\<open>NaN\<close>.
  The property \<^verbatim>\<open>finalScore\<close> of the result is the field \<open>finalScore_calc\<close>, the name
  \<open>finalScore\<close> being the one of the ranker's entries; the locals \<^verbatim>\<open>totalWeight\<close>,
  \<^verbatim>\<open>finalScore\<close> and \<^verbatim>\<open>logicContribution\<close> to \<^verbatim>\<open>creativityContribution\<close> are \<open>totalW\<close>,
  \<open>final\<close> and \<open>logicC\<close> to \<open>creativityC\<close>.
\<close>

definition calculateFinalScore :: "js_host \<Rightarrow> obj \<Rightarrow> obj \<Rightarrow> string + calculation" where
  "calculateFinalScore h aiScore criteria =
     (let logic_score = aiScore ''logic_score'';
          clarity_score = aiScore ''clarity_score'';
          testing_rate = aiScore ''testing_rate'';
          efficiency_score = Some (with_default (JNum 0) (aiScore ''efficiency_score''));
          api_ui_score = Some (with_default (JNum 0) (aiScore ''api_ui_score''));
          edge_cases_score = Some (with_default (JNum 0) (aiScore ''edge_cases_score''));
          creativity_score = Some (with_default (JNum 0) (aiScore ''creativity_score''));
          logic_weight = with_default (JNum (fl 0.25)) (criteria ''logic_weight'');
          clarity_weight = with_default (JNum (fl 0.30)) (criteria ''clarity_weight'');
          testing_weight = with_default (JNum (fl 0.0)) (criteria ''testing_weight'');
          efficiency_weight = with_default (JNum (fl 0.0)) (criteria ''efficiency_weight'');
          api_ui_weight = with_default (JNum (fl 0.20)) (criteria ''api_ui_weight'');
          edge_cases_weight = with_default (JNum (fl 0.15)) (criteria ''edge_cases_weight'');
          creativity_weight = with_default (JNum (fl 0.10)) (criteria ''creativity_weight'');
          totalW = js_add h (js_add h (js_add h (js_add h (js_add h (js_add h
                     (val logic_weight) (val clarity_weight)) (val testing_weight))
                     (val efficiency_weight)) (val api_ui_weight)) (val edge_cases_weight))
                     (val creativity_weight)
      in if exceeds_tolerance (toNumber h totalW)
         then Inl (''Weights must sum to 1.0, got '' @ toString h totalW)
         else
           let logicC = num_mul (toNumber_opt h logic_score) (toNumber h (val logic_weight));
               clarityC = num_mul (toNumber_opt h clarity_score) (toNumber h (val clarity_weight));
               testingC = num_mul (toNumber_opt h testing_rate) (toNumber h (val testing_weight));
               efficiencyC =
                 num_mul (toNumber_opt h efficiency_score) (toNumber h (val efficiency_weight));
               apiUiC = num_mul (toNumber_opt h api_ui_score) (toNumber h (val api_ui_weight));
               edgeCasesC =
                 num_mul (toNumber_opt h edge_cases_score) (toNumber h (val edge_cases_weight));
               creativityC =
                 num_mul (toNumber_opt h creativity_score) (toNumber h (val creativity_weight));
               final = num_add (num_add (num_add (num_add (num_add (num_add
                         logicC clarityC) testingC) efficiencyC) apiUiC) edgeCasesC) creativityC
           in Inr \<lparr>finalScore_calc = round_2dp final,
                   logicContribution = round_2dp logicC,
                   clarityContribution = round_2dp clarityC,
                   testingContribution = round_2dp testingC,
                   efficiencyContribution = round_2dp efficiencyC,
                   apiUiContribution = round_2dp apiUiC,
                   edgeCasesContribution = round_2dp edgeCasesC,
                   creativityContribution = round_2dp creativityC,
                   breakdown = \<lparr>
                     logic = \<lparr>score = logic_score, weight = logic_weight, contribution = logicC\<rparr>,
                     clarity = \<lparr>score = clarity_score, weight = clarity_weight, contribution = clarityC\<rparr>,
                     testing = \<lparr>score = testing_rate, weight = testing_weight, contribution = testingC\<rparr>,
                     efficiency = \<lparr>score = efficiency_score, weight = efficiency_weight, contribution = efficiencyC\<rparr>,
                     apiUi = \<lparr>score = api_ui_score, weight = api_ui_weight, contribution = apiUiC\<rparr>,
                     edgeCases = \<lparr>score = edge_cases_score, weight = edge_cases_weight, contribution = edgeCasesC\<rparr>,
                     creativity = \<lparr>score = creativity_score, weight = creativity_weight, contribution = creativityC\<rparr>\<rparr>\<rparr>)"

section \<open>The ranker\<close>

text \<open>
  A score object carries its final score and further properties (the user, the
  challenge, the contributions), which the ranker copies and never reads; they are the
  field \<open>other\<close>. The object pushed by the loop, \<^verbatim>\<open>{...score, rank: currentRank}\<close>, is the
  score object extended by its rank.
\<close>

record 'a score_entry =
  finalScore :: real
  other :: 'a

record 'a ranked_entry = "'a score_entry" +
  rank :: nat

definition with_rank :: "'a score_entry \<Rightarrow> nat \<Rightarrow> 'a ranked_entry" where
  "with_rank s r = \<lparr>finalScore = finalScore s, other = other s, rank = r\<rparr>"

definition without_rank :: "'a ranked_entry \<Rightarrow> 'a score_entry" where
  "without_rank e = \<lparr>finalScore = finalScore e, other = other e\<rparr>"

text \<open>
  The comparator \<^verbatim>\<open>(a, b) => b.finalScore - a.finalScore\<close>. \<^verbatim>\<open>Array.prototype.sort\<close> puts
  \<open>a\<close> before \<open>b\<close> when the comparator is negative and is stable (ECMAScript 2019): for
  a consistent comparator its result is the one computed by stable insertion.
\<close>

definition by_score_desc :: "'a score_entry \<Rightarrow> 'a score_entry \<Rightarrow> real" where
  "by_score_desc a b = finalScore b - finalScore a"

fun insert_by :: "('a \<Rightarrow> 'a \<Rightarrow> real) \<Rightarrow> 'a \<Rightarrow> 'a list \<Rightarrow> 'a list" where
  "insert_by cmp x [] = [x]"
| "insert_by cmp x (y # ys) =
     (if cmp x y \<le> 0 then x # y # ys else y # insert_by cmp x ys)"

definition array_sort :: "('a \<Rightarrow> 'a \<Rightarrow> real) \<Rightarrow> 'a list \<Rightarrow> 'a list" where
  "array_sort cmp xs = foldr (insert_by cmp) xs []"

text \<open>
  The \<^verbatim>\<open>for\<close> loop over the index \<open>i\<close>; \<^verbatim>\<open>previousScore\<close> is \<^verbatim>\<open>null\<close> (\<open>None\<close>) before the
  first entry.
\<close>

function rank_loop ::
  "'a score_entry list \<Rightarrow> nat \<Rightarrow> nat \<Rightarrow> real option \<Rightarrow> 'a ranked_entry list
     \<Rightarrow> 'a ranked_entry list" where
  "rank_loop sortedScores i currentRank previousScore rankedScores =
     (if i < length sortedScores
      then
        let s = sortedScores ! i;
            currentRank =
              (if previousScore \<noteq> None \<and> Some (finalScore s) \<noteq> previousScore
               then i + 1 else currentRank)
        in rank_loop sortedScores (i + 1) currentRank (Some (finalScore s))
             (rankedScores @ [with_rank s currentRank])
      else rankedScores)"
  by pat_completeness auto
termination
  by (relation "measure (\<lambda>(sortedScores, i, _). length sortedScores - i)") auto

text \<open>\<^verbatim>\<open>!scores\<close> holds for \<^verbatim>\<open>null\<close> and \<^verbatim>\<open>undefined\<close>, the argument \<open>None\<close>.\<close>

definition calculateRankings :: "'a score_entry list option \<Rightarrow> 'a ranked_entry list" where
  "calculateRankings scores =
     (case scores of
        None \<Rightarrow> []
      | Some xs \<Rightarrow>
          if length xs = 0 then []
          else
            let sortedScores = array_sort by_score_desc xs
            in rank_loop sortedScores 0 1 None [])"

section \<open>The ranker on a store\<close>

text \<open>
  To say what \<^verbatim>\<open>calculateRankings\<close> writes, arrays and objects live in a store and are
  known by their addresses. The store is the list of the cells allocated so far: the
  address of a cell is its index, and an allocation appends a cell. An array cell holds
  the addresses of its elements; an object cell holds a score object and, when the
  object has one, its \<^verbatim>\<open>rank\<close> property.
\<close>

datatype 'a cell = ArrayCell "nat list" | ObjectCell "'a score_entry" "nat option"

type_synonym 'a store = "'a cell list"

text \<open>Reading an array or a score object at an address; \<open>None\<close> when the cell is of the
  other kind or the address is not allocated.\<close>

definition array_at :: "'a store \<Rightarrow> nat \<Rightarrow> nat list option" where
  "array_at H a =
     (if a < length H
      then (case H ! a of ArrayCell refs \<Rightarrow> Some refs | ObjectCell s r \<Rightarrow> None)
      else None)"

definition object_at :: "'a store \<Rightarrow> nat \<Rightarrow> 'a score_entry option" where
  "object_at H p =
     (if p < length H
      then (case H ! p of ArrayCell refs \<Rightarrow> None | ObjectCell s r \<Rightarrow> Some s)
      else None)"

text \<open>
  \<^verbatim>\<open>[...scores].sort(...)\<close>: the copy is a new array with the same element addresses, and
  the sort writes the copy. The comparator reads \<^verbatim>\<open>finalScore\<close> of the two objects; every
  element has to be a score object.
\<close>

fun deref_all :: "'a store \<Rightarrow> nat list \<Rightarrow> (nat \<times> 'a score_entry) list option" where
  "deref_all H [] = Some []"
| "deref_all H (p # ps) =
     (case object_at H p of
        None \<Rightarrow> None
      | Some s \<Rightarrow>
          (case deref_all H ps of
             None \<Rightarrow> None
           | Some es \<Rightarrow> Some ((p, s) # es)))"

definition by_referenced_score_desc ::
  "nat \<times> 'a score_entry \<Rightarrow> nat \<times> 'a score_entry \<Rightarrow> real" where
  "by_referenced_score_desc a b = finalScore (snd b) - finalScore (snd a)"

definition sort_in_place :: "'a store \<Rightarrow> nat \<Rightarrow> 'a store option" where
  "sort_in_place H a =
     (case array_at H a of
        None \<Rightarrow> None
      | Some refs \<Rightarrow>
          (case deref_all H refs of
             None \<Rightarrow> None
           | Some es \<Rightarrow>
               Some (H[a := ArrayCell (map fst (array_sort by_referenced_score_desc es))])))"

text \<open>
  The loop, over the element addresses of the sorted copy, which it only reads. Each turn
  allocates the object \<^verbatim>\<open>{...score, rank: currentRank}\<close> and pushes its address to the array
  \<^verbatim>\<open>rankedScores\<close>.
\<close>

fun rank_loop_store ::
  "'a store \<Rightarrow> nat \<Rightarrow> nat list \<Rightarrow> nat \<Rightarrow> nat \<Rightarrow> real option \<Rightarrow> 'a store option" where
  "rank_loop_store H rankedScores [] i currentRank previousScore = Some H"
| "rank_loop_store H rankedScores (p # ps) i currentRank previousScore =
     (case object_at H p of
        None \<Rightarrow> None
      | Some s \<Rightarrow>
          let currentRank =
                (if previousScore \<noteq> None \<and> Some (finalScore s) \<noteq> previousScore
                 then i + 1 else currentRank);
              fresh = length H;
              H = H @ [ObjectCell s (Some currentRank)]
          in (case array_at H rankedScores of
                None \<Rightarrow> None
              | Some rs \<Rightarrow>
                  rank_loop_store (H[rankedScores := ArrayCell (rs @ [fresh])]) rankedScores ps
                    (i + 1) currentRank (Some (finalScore s))))"

text \<open>The argument is the address of the input array, or \<open>None\<close> for \<^verbatim>\<open>null\<close>; the result is
  the final store and the address of the returned array. Each \<^verbatim>\<open>[]\<close> allocates an array.\<close>

definition calculateRankings_store :: "'a store \<Rightarrow> nat option \<Rightarrow> ('a store \<times> nat) option" where
  "calculateRankings_store H scores =
     (case scores of
        None \<Rightarrow> Some (H @ [ArrayCell []], length H)
      | Some a \<Rightarrow>
          (case array_at H a of
             None \<Rightarrow> None
           | Some refs \<Rightarrow>
               if length refs = 0 then Some (H @ [ArrayCell []], length H)
               else
                 let sortedScores = length H;
                     H = H @ [ArrayCell refs]
                 in (case sort_in_place H sortedScores of
                       None \<Rightarrow> None
                     | Some H \<Rightarrow>
                         let rankedScores = length H;
                             H = H @ [ArrayCell []]
                         in (case array_at H sortedScores of
                               None \<Rightarrow> None
                             | Some sorted_refs \<Rightarrow>
                                 (case rank_loop_store H rankedScores sorted_refs 0 1 None of
                                    None \<Rightarrow> None
                                  | Some H \<Rightarrow> Some (H, rankedScores))))))"

section \<open>The properties, in the words of the specification\<close>

subsection \<open>Weight sets\<close>

text \<open>
  The contribution of a weight name to the sum: its number, and 0 when the name is
  missing. \<open>weight_sum\<close> is the sum of the seven contributions as a real number, and
  \<open>double_sum\<close> the sum as double arithmetic gives it, adding the seven contributions
  to 0 in the order of the canonical names. A weight that is present has to be a number
  between 0 and 1.
\<close>

definition weight_of :: "json option \<Rightarrow> real" where
  "weight_of v = (case v of Some (JNum x) \<Rightarrow> x | _ \<Rightarrow> 0)"

definition weight_sum :: "obj \<Rightarrow> real" where
  "weight_sum criteria = (\<Sum>field\<leftarrow>weightFields. weight_of (criteria field))"

definition double_sum :: "obj \<Rightarrow> jsnum" where
  "double_sum criteria =
     foldl (\<lambda>s field. num_add s (Fin (weight_of (criteria field)))) (Fin 0) weightFields"

fun within_tolerance :: "jsnum \<Rightarrow> bool" where
  "within_tolerance (Fin t) = (\<bar>t - 1.0\<bar> \<le> 0.01)"
| "within_tolerance n = False"

fun from_099_to_101 :: "jsnum \<Rightarrow> bool" where
  "from_099_to_101 (Fin t) = (0.99 \<le> t \<and> t \<le> 1.01)"
| "from_099_to_101 n = False"

fun weight_in_range :: "json option \<Rightarrow> bool" where
  "weight_in_range (Some (JNum x)) = (0 \<le> x \<and> x \<le> 1)"
| "weight_in_range v = absent v"

definition weights_in_range :: "obj \<Rightarrow> bool" where
  "weights_in_range criteria = (\<forall>field\<in>set weightFields. weight_in_range (criteria field))"

subsection \<open>Field checks of a raw score, and the messages\<close>

text \<open>
  A sub-score that is present has to be a number between 0 and 100. The messages are
  those of the source, one per offending field. A raw score fails its field checks when
  a sub-score is out of range or a required field is missing.
\<close>

fun score_in_range :: "json option \<Rightarrow> bool" where
  "score_in_range (Some (JNum x)) = (0 \<le> x \<and> x \<le> 100)"
| "score_in_range v = absent v"

fun number_or_absent :: "json option \<Rightarrow> bool" where
  "number_or_absent (Some (JNum x)) = True"
| "number_or_absent v = absent v"

definition missing_message :: "string \<Rightarrow> string" where
  "missing_message field = ''Missing required field: '' @ field"

definition score_message :: "string \<Rightarrow> string" where
  "score_message field = field @ '' must be a number between 0 and 100''"

definition weight_message :: "string \<Rightarrow> string" where
  "weight_message field = field @ '' must be a number between 0 and 1''"

definition fails_field_checks :: "obj \<Rightarrow> bool" where
  "fails_field_checks aiScore =
     ((\<exists>field\<in>set scoreFields. \<not> score_in_range (aiScore field))
      \<or> (\<exists>field\<in>set required. absent (aiScore field)))"

subsection \<open>The seven criteria\<close>

text \<open>
  A criterion is the name of its sub-score, the value the sub-score takes when it is
  not given (if it has one), the name of its weight, and the value the weight takes when
  it is not given. The sub-score and the weight of a criterion as the aggregator uses
  them, the contribution before rounding, which is their product, and the final score
  before rounding, which is the sum of the seven contributions from left to right.
\<close>

type_synonym criterion = "string \<times> json option \<times> string \<times> json"

definition criteria_table :: "criterion list" where
  "criteria_table =
     [(''logic_score'', None, ''logic_weight'', JNum (fl 0.25)),
      (''clarity_score'', None, ''clarity_weight'', JNum (fl 0.30)),
      (''testing_rate'', None, ''testing_weight'', JNum (fl 0.0)),
      (''efficiency_score'', Some (JNum 0), ''efficiency_weight'', JNum (fl 0.0)),
      (''api_ui_score'', Some (JNum 0), ''api_ui_weight'', JNum (fl 0.20)),
      (''edge_cases_score'', Some (JNum 0), ''edge_cases_weight'', JNum (fl 0.15)),
      (''creativity_score'', Some (JNum 0), ''creativity_weight'', JNum (fl 0.10))]"

fun sub_score :: "obj \<Rightarrow> criterion \<Rightarrow> json option" where
  "sub_score aiScore (name, None, weight_name, weight_default) = aiScore name"
| "sub_score aiScore (name, Some d, weight_name, weight_default) =
     (case aiScore name of None \<Rightarrow> Some d | Some v \<Rightarrow> Some v)"

fun weight_used :: "obj \<Rightarrow> criterion \<Rightarrow> json" where
  "weight_used criteria (name, d, weight_name, weight_default) =
     (case criteria weight_name of None \<Rightarrow> weight_default | Some w \<Rightarrow> w)"

definition unrounded_contribution :: "js_host \<Rightarrow> obj \<Rightarrow> obj \<Rightarrow> criterion \<Rightarrow> jsnum" where
  "unrounded_contribution h aiScore criteria row =
     num_mul (toNumber_opt h (sub_score aiScore row)) (toNumber h (val (weight_used criteria row)))"

definition unrounded_final :: "js_host \<Rightarrow> obj \<Rightarrow> obj \<Rightarrow> jsnum" where
  "unrounded_final h aiScore criteria =
     (let cs = map (unrounded_contribution h aiScore criteria) criteria_table
      in foldl num_add (hd cs) (tl cs))"

definition breakdown_items :: "breakdown_rec \<Rightarrow> breakdown_item list" where
  "breakdown_items b =
     [logic b, clarity b, testing b, efficiency b, apiUi b, edgeCases b, creativity b]"

subsection \<open>Rounding, in the words of the specification\<close>

text \<open>
  Half-up rounding of the value scaled by 100: the integer nearest to the scaled value,
  the greater one when two are equally near; the stored value is that integer divided by
  100. Both the scaling and the division are operations on doubles.
\<close>

definition half_up :: "real \<Rightarrow> int" where
  "half_up p = (if p - of_int \<lfloor>p\<rfloor> < 1 / 2 then \<lfloor>p\<rfloor> else \<lfloor>p\<rfloor> + 1)"

definition rounded_2dp :: "jsnum \<Rightarrow> jsnum" where
  "rounded_2dp v =
     (case num_mul v (Fin 100) of
        Fin p \<Rightarrow> round_double (of_int (half_up p) / 100)
      | n \<Rightarrow> n)"

subsection \<open>Ranks\<close>

text \<open>The loop as a recursion over the entries still to be ranked.\<close>

fun ranks_from :: "nat \<Rightarrow> nat \<Rightarrow> real option \<Rightarrow> 'a score_entry list \<Rightarrow> 'a ranked_entry list" where
  "ranks_from i currentRank previousScore [] = []"
| "ranks_from i currentRank previousScore (s # rest) =
     (let r = (if previousScore \<noteq> None \<and> Some (finalScore s) \<noteq> previousScore
               then i + 1 else currentRank)
      in with_rank s r # ranks_from (i + 1) r (Some (finalScore s)) rest)"

text \<open>
  The ranking law: the first entry has rank 1; an entry whose final score differs from
  the previous entry's has its position (counted from 1) as rank, any other entry the
  rank of the previous entry.
\<close>

definition descending :: "real list \<Rightarrow> bool" where
  "descending ss = sorted_wrt (\<lambda>a b. a \<ge> b) ss"

definition ranking_law :: "real list \<Rightarrow> nat list \<Rightarrow> bool" where
  "ranking_law ss rs =
     (length rs = length ss
      \<and> (\<forall>i<length ss.
            rs ! i = (if i = 0 then 1
                      else if ss ! i \<noteq> ss ! (i - 1) then i + 1
                      else rs ! (i - 1))))"

text \<open>Entries with equal final scores keep the order they have in the input.\<close>

definition entry :: "real \<Rightarrow> 'a \<Rightarrow> 'a score_entry" where
  "entry s u = \<lparr>finalScore = s, other = u\<rparr>"

definition ties_keep_input_order :: "'a score_entry list \<Rightarrow> 'a score_entry list \<Rightarrow> bool" where
  "ties_keep_input_order input output =
     (\<forall>k. filter (\<lambda>e. finalScore e = k) output = filter (\<lambda>e. finalScore e = k) input)"

subsection \<open>Reading a ranking from the store\<close>

text \<open>The ranked entries held by the objects at the given addresses, and the cell of a
  ranked entry.\<close>

fun ranked_cell :: "'a cell \<Rightarrow> 'a ranked_entry option" where
  "ranked_cell (ObjectCell s (Some r)) = Some (with_rank s r)"
| "ranked_cell c = None"

definition ranked_at :: "'a store \<Rightarrow> nat list \<Rightarrow> 'a ranked_entry option list" where
  "ranked_at H refs = map (\<lambda>p. if p < length H then ranked_cell (H ! p) else None) refs"

definition ranked_object :: "'a ranked_entry \<Rightarrow> 'a cell" where
  "ranked_object e = ObjectCell (without_rank e) (Some (rank e))"

subsection \<open>Concrete objects\<close>

text \<open>A host for evaluating the model on concrete objects: no string is a numeral.\<close>

definition host0 :: js_host where
  "host0 = \<lparr>numberToString = (\<lambda>n. ''''), stringToNumber = (\<lambda>s. NaN)\<rparr>"

definition half_weights :: obj where
  "half_weights = [''logic_weight'' \<mapsto> JNum 0.5, ''clarity_weight'' \<mapsto> JNum 0.5]"

definition boundary_weights :: obj where
  "boundary_weights = [''logic_weight'' \<mapsto> JNum (fl 0.02), ''clarity_weight'' \<mapsto> JNum (fl 0.99)]"

definition string_weights :: obj where
  "string_weights = [''logic_weight'' \<mapsto> JStr ''high'', ''clarity_weight'' \<mapsto> JNum (fl 0.9),
     ''testing_weight'' \<mapsto> JNum (fl 0.9)]"

definition a3 :: obj where
  "a3 = [''logic_score'' \<mapsto> JNum 12.5, ''clarity_score'' \<mapsto> JNum 80, ''testing_rate'' \<mapsto> JNum 90]"

definition c3 :: obj where
  "c3 = [''logic_weight'' \<mapsto> JNum (fl 0.01), ''clarity_weight'' \<mapsto> JNum (fl 0.99),
     ''testing_weight'' \<mapsto> JNum 0, ''efficiency_weight'' \<mapsto> JNum 0, ''api_ui_weight'' \<mapsto> JNum 0,
     ''edge_cases_weight'' \<mapsto> JNum 0, ''creativity_weight'' \<mapsto> JNum 0]"

definition a3b :: obj where
  "a3b = [''logic_score'' \<mapsto> JNum (fl 1.45), ''clarity_score'' \<mapsto> JNum 80,
     ''testing_rate'' \<mapsto> JNum 90]"

definition c3b :: obj where
  "c3b = [''logic_weight'' \<mapsto> JNum (fl 0.10), ''clarity_weight'' \<mapsto> JNum (fl 0.90),
     ''testing_weight'' \<mapsto> JNum 0, ''efficiency_weight'' \<mapsto> JNum 0, ''api_ui_weight'' \<mapsto> JNum 0,
     ''edge_cases_weight'' \<mapsto> JNum 0, ''creativity_weight'' \<mapsto> JNum 0]"

definition score150 :: obj where
  "score150 = [''user_id'' \<mapsto> JStr ''u1'', ''challenge_id'' \<mapsto> JStr ''c1'',
     ''ai_score'' \<mapsto> JNum 90, ''code_quality'' \<mapsto> JNum 85, ''testing_rate'' \<mapsto> JNum 90,
     ''logic_score'' \<mapsto> JNum 150, ''clarity_score'' \<mapsto> JNum 80]"

definition score100 :: obj where
  "score100 = [''user_id'' \<mapsto> JStr ''u1'', ''challenge_id'' \<mapsto> JStr ''c1'',
     ''ai_score'' \<mapsto> JNum 90, ''code_quality'' \<mapsto> JNum 85, ''testing_rate'' \<mapsto> JNum 90,
     ''logic_score'' \<mapsto> JNum 100, ''clarity_score'' \<mapsto> JNum 80]"

definition scores5 :: obj where
  "scores5 = [''logic_score'' \<mapsto> JNum 95, ''clarity_score'' \<mapsto> JNum 90,
     ''testing_rate'' \<mapsto> JNum 100, ''efficiency_score'' \<mapsto> JNum 0]"

definition weights5 :: obj where
  "weights5 = [''logic_weight'' \<mapsto> JNum (fl 0.4), ''clarity_weight'' \<mapsto> JNum (fl 0.3),
     ''testing_weight'' \<mapsto> JNum (fl 0.3), ''efficiency_weight'' \<mapsto> JNum (fl 0.0)]"

definition weights5_explicit :: obj where
  "weights5_explicit = [''logic_weight'' \<mapsto> JNum (fl 0.4), ''clarity_weight'' \<mapsto> JNum (fl 0.3),
     ''testing_weight'' \<mapsto> JNum (fl 0.3), ''efficiency_weight'' \<mapsto> JNum (fl 0.0),
     ''api_ui_weight'' \<mapsto> JNum 0, ''edge_cases_weight'' \<mapsto> JNum 0, ''creativity_weight'' \<mapsto> JNum 0]"

definition store0 :: "string store" where
  "store0 = [ObjectCell (entry 70 ''a'') None, ObjectCell (entry 90 ''b'') None, ArrayCell [0, 1]]"

section \<open>Rounding to a double\<close>

declare bits.simps [simp del]

lemma bits_bounds: "0 < n \<Longrightarrow> 2 ^ (bits n - 1) \<le> n \<and> n < 2 ^ bits n"
proof (induction n rule: bits.induct)
  case (1 n)
  show ?case
  proof (cases "n div 2 = 0")
    case True
    then have "n = 1" using "1.prems" by auto
    then show ?thesis by (simp add: bits.simps)
  next
    case False
    then have ih: "2 ^ (bits (n div 2) - 1) \<le> n div 2" "n div 2 < 2 ^ bits (n div 2)"
      using "1.IH" "1.prems" by auto
    have b: "bits n = Suc (bits (n div 2))"
      using "1.prems" by (subst bits.simps) simp
    have pos: "0 < bits (n div 2)"
      using False by (subst bits.simps) simp
    define a :: nat where "a = 2 ^ (bits (n div 2) - 1)"
    have p: "(2::nat) ^ bits (n div 2) = 2 * a"
      using pos unfolding a_def by (cases "bits (n div 2)") simp_all
    have "(2::nat) ^ (bits n - 1) = 2 * a" "(2::nat) ^ bits n = 4 * a"
      unfolding b using p by simp_all
    moreover have "a \<le> n div 2" "n div 2 < 2 * a"
      using ih p unfolding a_def by simp_all
    moreover have "2 * (n div 2) \<le> n" "n < 2 * (n div 2) + 2"
      by presburger+
    ultimately show ?thesis by linarith
  qed
qed

lemma expo_bounds:
  assumes "x \<noteq> 0"
  shows "2 powi expo x \<le> \<bar>x\<bar>" and "\<bar>x\<bar> < 2 powi (expo x + 1)"
proof -
  have "2 powi expo x \<le> \<bar>x\<bar> \<and> \<bar>x\<bar> < 2 powi (expo x + 1)"
  proof (cases "1 \<le> \<bar>x\<bar>")
    case True
    define n where "n = nat \<lfloor>\<bar>x\<bar>\<rfloor>"
    have "1 \<le> \<lfloor>\<bar>x\<bar>\<rfloor>" using True by (simp add: le_floor_iff)
    then have rn: "real n = of_int \<lfloor>\<bar>x\<bar>\<rfloor>" and n0: "0 < n"
      by (simp_all add: n_def)
    have n: "0 < n" "real n \<le> \<bar>x\<bar>" "\<bar>x\<bar> < real n + 1"
      using n0 unfolding rn by (simp, linarith, linarith)
    have e: "expo x = int (bits n) - 1" using True by (simp add: expo_def n_def)
    from bits_bounds [OF n(1)] have b: "2 ^ (bits n - 1) \<le> n" "n < 2 ^ bits n" by auto
    have bp: "0 < bits n" using n(1) by (subst bits.simps) simp
    have "(2::real) powi (int (bits n) - 1) = 2 ^ (bits n - 1)"
      using bp by (simp add: power_int_def nat_diff_distrib')
    moreover have "(2::real) powi (int (bits n) - 1 + 1) = 2 ^ bits n"
      by (simp add: power_int_def)
    moreover have "(2::real) ^ (bits n - 1) \<le> real n"
    proof -
      have "real (2 ^ (bits n - 1)) \<le> real n" using b(1) by (simp only: of_nat_le_iff)
      then show ?thesis by simp
    qed
    moreover have "real n + 1 \<le> 2 ^ bits n"
    proof -
      have "Suc n \<le> 2 ^ bits n" using b(2) by simp
      then have "real (Suc n) \<le> real (2 ^ bits n)" by (simp only: of_nat_le_iff)
      then show ?thesis by simp
    qed
    ultimately show ?thesis using n unfolding e by linarith
  next
    case False
    define y where "y = 1 / \<bar>x\<bar>"
    have y: "1 < y" using False assms by (simp add: y_def)
    define m where "m = nat (\<lceil>y\<rceil> - 1)"
    have "2 \<le> \<lceil>y\<rceil>" using y by (simp add: le_ceiling_iff)
    then have rm: "real m = of_int \<lceil>y\<rceil> - 1" and m0: "0 < m"
      by (simp_all add: m_def)
    have m: "0 < m" "real m < y" "y \<le> real m + 1"
      using m0 unfolding rm by (simp, linarith, linarith)
    have e: "expo x = - int (bits m)" using False by (simp add: expo_def m_def y_def)
    from bits_bounds [OF m(1)] have b: "2 ^ (bits m - 1) \<le> m" "m < 2 ^ bits m" by auto
    have bp: "0 < bits m" using m(1) by (subst bits.simps) simp
    have p1: "(2::real) powi (- int (bits m)) = 1 / 2 ^ bits m"
      by (simp add: power_int_def field_simps)
    have p2: "(2::real) powi (- int (bits m) + 1) = 1 / 2 ^ (bits m - 1)"
      using bp by (cases "bits m") (simp_all add: power_int_def field_simps)
    have u: "y \<le> 2 ^ bits m"
    proof -
      have "Suc m \<le> 2 ^ bits m" using b(2) by simp
      then have "real (Suc m) \<le> real (2 ^ bits m)" by (simp only: of_nat_le_iff)
      then show ?thesis using m(3) by simp
    qed
    have l: "(2::real) ^ (bits m - 1) < y"
    proof -
      have "real (2 ^ (bits m - 1)) \<le> real m" using b(1) by (simp only: of_nat_le_iff)
      then have "(2::real) ^ (bits m - 1) \<le> real m" by simp
      then show ?thesis using m(2) by linarith
    qed
    have x: "\<bar>x\<bar> = 1 / y" using assms by (simp add: y_def)
    have "1 / 2 ^ bits m \<le> 1 / y"
      using u y by (intro divide_left_mono) simp_all
    moreover have "1 / y < 1 / 2 ^ (bits m - 1)"
      using l y by (intro divide_strict_left_mono) simp_all
    ultimately show ?thesis unfolding e p1 p2 x by simp
  qed
  then show "2 powi expo x \<le> \<bar>x\<bar>" and "\<bar>x\<bar> < 2 powi (expo x + 1)" by simp_all
qed

lemma powi_mono: "a \<le> b \<Longrightarrow> (2::real) powi a \<le> 2 powi b"
  by (rule power_int_increasing) simp_all

lemma powi_less: "(2::real) powi a < 2 powi b \<Longrightarrow> a < b"
  by (metis powi_mono not_le)

lemma expo_eqI:
  assumes "2 powi e \<le> \<bar>x\<bar>" and "\<bar>x\<bar> < 2 powi (e + 1)"
  shows "expo x = e"
proof -
  have p: "(0::real) < 2 powi e" by (simp add: zero_less_power_int)
  have "x \<noteq> 0"
  proof
    assume "x = 0"
    then have "2 powi e \<le> (0::real)" using assms(1) by simp
    then show False using p by linarith
  qed
  from expo_bounds [OF this] assms
  have "(2::real) powi e < 2 powi (expo x + 1)" "(2::real) powi expo x < 2 powi (e + 1)"
    by linarith+
  then have "e < expo x + 1" "expo x < e + 1" by (auto dest: powi_less)
  then show ?thesis by simp
qed

lemma rne_of_int [simp]: "rne (of_int n) = n"
  by (simp add: rne_def)

lemma rne_ge: "of_int N \<le> y \<Longrightarrow> N \<le> rne y"
  unfolding rne_def Let_def by (auto simp: le_floor_iff; linarith?)

lemma rne_le: "y \<le> of_int N \<Longrightarrow> rne y \<le> N"
  unfolding rne_def Let_def by (auto simp: floor_le_iff; linarith?)

lemma fl_evalI:
  assumes "2 powi e \<le> \<bar>x\<bar>" and "\<bar>x\<bar> < 2 powi (e + 1)" and "- 1022 \<le> e"
  shows "fl x = of_int (rne (x * 2 powi (52 - e))) * 2 powi (e - 52)"
proof -
  have "expo x = e" using assms(1,2) by (rule expo_eqI)
  moreover have "x / 2 powi (e - 52) = x * 2 powi (52 - e)"
    by (simp add: power_int_diff field_simps)
  ultimately show ?thesis using assms(3) by (simp add: fl_def Let_def max_def)
qed

lemma powi_pos [simp]: "(0::real) < 2 powi e"
  by (simp add: zero_less_power_int)

lemma powi_add1: "(2::real) powi (e + 1) = 2 * 2 powi e"
  by (simp add: power_int_add)

lemma powi_split: "(2::real) powi a = 2 powi (a - b) * 2 powi b"
  by (simp add: power_int_diff)

lemma powi_nat: "0 \<le> d \<Longrightarrow> (2::real) powi d = of_int (2 ^ nat d)"
  by (simp add: power_int_def)

lemma rne_zero [simp]: "rne 0 = 0"
  using rne_of_int [of 0] by simp

lemma fl_zero [simp]: "fl 0 = 0"
  by (simp add: fl_def Let_def)

text \<open>A double is its own rounding.\<close>

lemma fl_exact:
  assumes x: "x = of_int n * 2 powi k" and n: "\<bar>n\<bar> < 2 ^ 53" and k: "- 1074 \<le> k"
  shows "fl x = x"
proof (cases "x = 0")
  case True
  then show ?thesis by simp
next
  case False
  define e where "e = max (expo x) (- 1022)"
  have le: "e - 52 \<le> k"
  proof (cases "expo x \<le> - 1022")
    case True
    then show ?thesis using k by (simp add: e_def max_def)
  next
    case False
    then have e: "e = expo x" by (simp add: e_def max_def)
    have "\<bar>x\<bar> = of_int \<bar>n\<bar> * 2 powi k"
      unfolding x by (simp add: abs_mult)
    moreover have "(of_int \<bar>n\<bar> :: real) < of_int (2 ^ 53)"
      using n by (simp only: of_int_less_iff)
    ultimately have "\<bar>x\<bar> < 2 ^ 53 * 2 powi k"
      by (simp add: mult_strict_right_mono)
    also have "\<dots> = 2 powi (53 + k)"
      by (simp add: power_int_add)
    finally have "(2::real) powi e < 2 powi (53 + k)"
      using expo_bounds(1) [OF \<open>x \<noteq> 0\<close>] unfolding e by linarith
    then have "e < 53 + k" by (rule powi_less)
    then show ?thesis by simp
  qed
  define d where "d = k - (e - 52)"
  have d: "0 \<le> d" using le by (simp add: d_def)
  have "x / 2 powi (e - 52) = of_int n * 2 powi d"
    unfolding x d_def by (simp add: power_int_diff)
  also have "\<dots> = of_int (n * 2 ^ nat d)"
    using d by (simp add: powi_nat)
  finally have "rne (x / 2 powi (e - 52)) = n * 2 ^ nat d"
    by (simp only: rne_of_int)
  then have "fl x = of_int (n * 2 ^ nat d) * 2 powi (e - 52)"
    by (simp add: fl_def Let_def e_def)
  also have "\<dots> = of_int n * (2 powi d * 2 powi (e - 52))"
    using d by (simp add: powi_nat)
  also have "2 powi d * 2 powi (e - 52) = (2::real) powi k"
    unfolding d_def by (simp add: power_int_diff)
  finally show ?thesis unfolding x .
qed

lemma fl_lower:
  assumes "2 powi k \<le> x" and "- 1022 \<le> k"
  shows "2 powi k \<le> fl x"
proof -
  have pos: "0 < x" using assms(1) powi_pos [of k] by linarith
  then have nz: "x \<noteq> 0" by simp
  have "(2::real) powi k < 2 powi (expo x + 1)"
    using expo_bounds(2) [OF nz] assms(1) pos by simp
  then have ke: "k \<le> expo x" using powi_less by fastforce
  then have m: "max (expo x) (- 1022) = expo x" using assms(2) by simp
  define q :: real where "q = 2 powi (expo x - 52)"
  have q: "0 < q" by (simp add: q_def)
  have "2 powi expo x \<le> x" using expo_bounds(1) [OF nz] pos by simp
  moreover have "(2::real) powi expo x = 2 ^ 52 * q"
    unfolding q_def by (simp add: power_int_diff)
  ultimately have "of_int (2 ^ 52) \<le> x / q"
    using q by (simp add: pos_le_divide_eq)
  then have "2 ^ 52 \<le> rne (x / q)" by (rule rne_ge)
  then have "(of_int (2 ^ 52) :: real) \<le> of_int (rne (x / q))"
    by (simp only: of_int_le_iff)
  then have "2 ^ 52 * q \<le> of_int (rne (x / q)) * q"
    using q by (simp add: mult_right_mono)
  moreover have "fl x = of_int (rne (x / q)) * q"
    by (simp add: fl_def Let_def m q_def)
  moreover have "(2::real) powi k \<le> 2 powi expo x"
    using ke by (rule powi_mono)
  ultimately show ?thesis
    using \<open>(2::real) powi expo x = 2 ^ 52 * q\<close> by linarith
qed

lemma rne_minus: "rne (- y) = - rne y"
proof -
  consider "y = of_int \<lfloor>y\<rfloor>" | "y \<noteq> of_int \<lfloor>y\<rfloor>" by blast
  then show ?thesis
  proof cases
    case 1
    then obtain n :: int where "y = of_int n" by metis
    then have "- y = of_int (- n)" by simp
    then show ?thesis using \<open>y = of_int n\<close> by (simp only: rne_of_int)
  next
    case 2
    then have "\<lceil>y\<rceil> = \<lfloor>y\<rfloor> + 1" by (simp add: ceiling_altdef)
    moreover have "\<lfloor>- y\<rfloor> = - \<lceil>y\<rceil>" by (simp add: ceiling_def)
    ultimately have f: "\<lfloor>- y\<rfloor> = - \<lfloor>y\<rfloor> - 1" by simp
    define g where "g = \<lfloor>y\<rfloor>"
    define d where "d = y - of_int g"
    have d: "0 < d" "d < 1"
      using 2 unfolding d_def g_def by linarith+
    have m: "- y - of_int (- g - 1) = 1 - d"
      by (simp add: d_def)
    have r1: "rne y = (if d < 1 / 2 then g else if 1 / 2 < d then g + 1
        else if even g then g else g + 1)"
      by (simp add: rne_def Let_def g_def d_def)
    have r2: "rne (- y) = (if 1 - d < 1 / 2 then - g - 1 else if 1 / 2 < 1 - d then - g - 1 + 1
        else if even (- g - 1) then - g - 1 else - g - 1 + 1)"
      unfolding rne_def Let_def f g_def [symmetric] m ..
    show ?thesis
      unfolding r1 r2 using d by (auto; linarith?)
  qed
qed

lemma expo_minus [simp]: "expo (- x) = expo x"
  by (simp add: expo_def)

lemma fl_minus: "fl (- x) = - fl x"
  by (simp add: fl_def Let_def rne_minus)

lemma fl_upper_neg:
  assumes "x \<le> - (2 powi k)" and "- 1022 \<le> k"
  shows "fl x \<le> - (2 powi k)"
  using fl_lower [of k "- x"] assms by (simp add: fl_minus)

lemma fl_abs_le: "\<bar>fl x\<bar> \<le> 2 powi (max (expo x) (- 1022) + 1)"
proof (cases "x = 0")
  case True
  then show ?thesis by (simp add: less_imp_le)
next
  case False
  define e where "e = max (expo x) (- 1022)"
  define q :: real where "q = 2 powi (e - 52)"
  have q: "0 < q" by (simp add: q_def)
  have pq: "(2::real) powi (e + 1) = 2 ^ 53 * q"
    unfolding q_def by (simp add: power_int_diff power_int_add)
  have "\<bar>x\<bar> < 2 powi (expo x + 1)" using expo_bounds(2) [OF False] .
  also have "\<dots> \<le> 2 powi (e + 1)" by (rule powi_mono) (simp add: e_def)
  finally have "\<bar>x\<bar> < 2 ^ 53 * q" unfolding pq .
  moreover have "\<bar>x / q\<bar> = \<bar>x\<bar> / q"
    using q by simp
  ultimately have "\<bar>x / q\<bar> < 2 ^ 53"
    using q by (simp only: pos_divide_less_eq)
  then have "x / q \<le> of_int (2 ^ 53)" "of_int (- (2 ^ 53)) \<le> x / q"
    by (simp_all add: abs_if split: if_splits)
  then have "rne (x / q) \<le> 2 ^ 53" "- (2 ^ 53) \<le> rne (x / q)"
    by (auto intro: rne_le rne_ge)
  then have "\<bar>rne (x / q)\<bar> \<le> 2 ^ 53" by simp
  then have "\<bar>(of_int (rne (x / q)) :: real)\<bar> \<le> of_int (2 ^ 53)"
    by (metis of_int_abs of_int_le_iff)
  then have "\<bar>of_int (rne (x / q)) * q\<bar> \<le> 2 ^ 53 * q"
    using q by (simp add: abs_mult mult_right_mono)
  moreover have "fl x = of_int (rne (x / q)) * q"
    by (simp add: fl_def Let_def e_def q_def)
  ultimately show ?thesis unfolding pq e_def [symmetric] by simp
qed

text \<open>Evaluation of the arithmetic on numerals.\<close>

lemmas dbl_eval = round_double_def fl_def expo_def bits.simps rne_def Let_def

section \<open>The tolerance test\<close>

text \<open>
  The doubles above \<open>1 / 2\<close> are multiples of \<open>2 powi (- 53)\<close>, so the subtraction of 1.0
  from a double near 1 is exact; and no multiple of \<open>2 powi (- 53)\<close> lies between 0.01
  and the double \<^verbatim>\<open>0.01\<close>, which is slightly greater. On a double the test of the source
  therefore decides whether the number is more than 0.01 away from 1.
\<close>

lemma fl_hundredth: "fl (1 / 100) = 5764607523034235 / 576460752303423488"
  by (subst fl_evalI [where e = "- 7"]) (simp_all add: rne_def Let_def)

lemma fl_grid_half:
  assumes "1 / 2 < fl x"
  shows "\<exists>m. fl x = of_int m * 2 powi (- 53)"
proof -
  define e where "e = max (expo x) (- 1022)"
  have "- 1 \<le> e"
  proof (rule ccontr)
    assume "\<not> - 1 \<le> e"
    then have "e + 1 \<le> - 1" by simp
    then have "(2::real) powi (e + 1) \<le> 2 powi (- 1)" by (rule powi_mono)
    then have "\<bar>fl x\<bar> \<le> 1 / 2"
      using fl_abs_le [of x] unfolding e_def [symmetric] by simp
    then show False using assms by simp
  qed
  then have d: "0 \<le> e + 1" by simp
  define r where "r = rne (x / 2 powi (e - 52))"
  have f: "fl x = of_int r * 2 powi (e - 52)"
    by (simp add: fl_def Let_def e_def r_def)
  have q: "(2::real) powi (e - 52) = 2 powi (e + 1) * 2 powi (- 53)"
    by (subst power_int_add [symmetric]) simp_all
  have n: "(2::real) powi (e + 1) = of_int (2 ^ nat (e + 1))"
    using d by (rule powi_nat)
  have "fl x = of_int (r * 2 ^ nat (e + 1)) * 2 powi (- 53)"
    unfolding f q n by simp
  then show ?thesis by blast
qed

lemma exceeds_tolerance_far:
  assumes "1 / 2 \<le> \<bar>t - 1\<bar>"
  shows "exceeds_tolerance (Fin t)"
proof -
  have c: "fl (1 / 100) < 1 / 2" by (simp add: fl_hundredth)
  have h: "(2::real) powi (- 1) = 1 / 2" by simp
  consider "1 / 2 \<le> t - 1" | "t - 1 \<le> - (1 / 2)" using assms by linarith
  then show ?thesis
  proof cases
    case 1
    then have "1 / 2 \<le> fl (t - 1)"
      using fl_lower [of "- 1" "t - 1"] by (simp add: h)
    then show ?thesis
      using c 1 by (auto simp: exceeds_tolerance_def num_sub_def round_double_def Let_def)
  next
    case 2
    then have "fl (t - 1) \<le> - (1 / 2)"
      using fl_upper_neg [of "t - 1" "- 1"] by (simp add: h)
    then show ?thesis
      using c 2 by (auto simp: exceeds_tolerance_def num_sub_def round_double_def Let_def)
  qed
qed

lemma exceeds_tolerance_rounded:
  "exceeds_tolerance (Fin (fl x)) \<longleftrightarrow> 1 / 100 < \<bar>fl x - 1\<bar>"
proof (cases "1 / 2 \<le> \<bar>fl x - 1\<bar>")
  case True
  then show ?thesis using exceeds_tolerance_far [of "fl x"] by simp
next
  case False
  then have near: "\<bar>fl x - 1\<bar> < 1 / 2" by simp
  then have "1 / 2 < fl x" by linarith
  then obtain m :: int where m: "fl x = of_int m * 2 powi (- 53)"
    using fl_grid_half by blast
  define k where "k = m - 2 ^ 53"
  have p: "(2::real) powi (- 53) = 1 / 2 ^ 53" by (simp add: power_int_minus field_simps)
  have d: "fl x - 1 = of_int k * 2 powi (- 53)"
    unfolding m k_def p by (simp add: field_simps)
  have "\<bar>of_int k :: real\<bar> < 2 ^ 52"
    using near unfolding d p by (simp add: abs_mult field_simps)
  then have "(of_int \<bar>k\<bar> :: real) < of_int (2 ^ 52)" by simp
  then have k: "\<bar>k\<bar> < 2 ^ 52" by (simp only: of_int_less_iff)
  then have "fl (fl x - 1) = fl x - 1"
    by (intro fl_exact [OF d]) simp_all
  moreover have "\<bar>fl x - 1\<bar> < 2 powi 1024"
    using near by (simp add: power_int_def)
  ultimately have e: "exceeds_tolerance (Fin (fl x)) \<longleftrightarrow> fl (1 / 100) < \<bar>fl x - 1\<bar>"
    by (simp add: exceeds_tolerance_def num_sub_def round_double_def Let_def)
  have a: "\<bar>fl x - 1\<bar> = of_int \<bar>k\<bar> / 2 ^ 53"
    unfolding d p by (simp add: abs_mult)
  have "fl (1 / 100) < \<bar>fl x - 1\<bar> \<longleftrightarrow> 90071992547410 \<le> \<bar>k\<bar>"
  proof -
    have "fl (1 / 100) < \<bar>fl x - 1\<bar> \<longleftrightarrow> (of_int 5764607523034235 :: real) < of_int (64 * \<bar>k\<bar>)"
      unfolding a fl_hundredth by (simp add: field_simps)
    also have "\<dots> \<longleftrightarrow> 5764607523034235 < 64 * \<bar>k\<bar>" by (simp only: of_int_less_iff)
    also have "\<dots> \<longleftrightarrow> 90071992547410 \<le> \<bar>k\<bar>" by linarith
    finally show ?thesis .
  qed
  moreover have "1 / 100 < \<bar>fl x - 1\<bar> \<longleftrightarrow> 90071992547410 \<le> \<bar>k\<bar>"
  proof -
    have "1 / 100 < \<bar>fl x - 1\<bar> \<longleftrightarrow> (of_int (2 ^ 53) :: real) < of_int (100 * \<bar>k\<bar>)"
      unfolding a by (simp add: field_simps)
    also have "\<dots> \<longleftrightarrow> 2 ^ 53 < 100 * \<bar>k\<bar>" by (simp only: of_int_less_iff)
    also have "\<dots> \<longleftrightarrow> 90071992547410 \<le> \<bar>k\<bar>" by simp linarith
    finally show ?thesis .
  qed
  ultimately show ?thesis using e by simp
qed

section \<open>The checking loops\<close>

text \<open>Each loop appends to the list it was given one message per offending field, in the
  order of the fields.\<close>

lemma weight_in_range_cases:
  "weight_in_range v \<longleftrightarrow>
     (case v of None \<Rightarrow> True | Some w \<Rightarrow> w = JNull \<or> \<not> (not_number w \<or> outside 0 1 w))"
  by (cases v; cases "the v") auto

lemma weight_in_range_number: "weight_in_range v \<Longrightarrow> number_or_absent v"
  by (cases v; cases "the v") auto

lemma check_required_eq:
  "check_required a fs errs = errs @ map missing_message (filter (\<lambda>f. absent (a f)) fs)"
  by (induction fs arbitrary: errs) (simp_all add: missing_message_def)

lemma score_in_range_cases:
  "score_in_range v \<longleftrightarrow>
     (case v of None \<Rightarrow> True | Some w \<Rightarrow> w = JNull \<or> \<not> (not_number w \<or> outside 0 100 w))"
  by (cases v; cases "the v") auto

lemma check_scores_eq:
  "check_scores a fs errs = errs @ map score_message (filter (\<lambda>f. \<not> score_in_range (a f)) fs)"
  by (induction fs arbitrary: errs)
    (auto simp: score_message_def score_in_range_cases split: option.splits)

lemma check_weights_eq:
  "check_weights c fs errs = errs @ map weight_message (filter (\<lambda>f. \<not> weight_in_range (c f)) fs)"
  by (induction fs arbitrary: errs)
    (auto simp: weight_message_def weight_in_range_cases split: option.splits)

lemma validateAIScore_errors:
  "errors (validateAIScore aiScore)
     = map missing_message (filter (\<lambda>f. absent (aiScore f)) required)
       @ map score_message (filter (\<lambda>f. \<not> score_in_range (aiScore f)) scoreFields)"
  by (simp add: validateAIScore_def Let_def check_required_eq check_scores_eq)

lemma validateAIScore_isValid_iff:
  "isValid (validateAIScore aiScore) \<longleftrightarrow> \<not> fails_field_checks aiScore"
proof -
  have "isValid (validateAIScore aiScore) \<longleftrightarrow>
      filter (\<lambda>f. absent (aiScore f)) required = []
      \<and> filter (\<lambda>f. \<not> score_in_range (aiScore f)) scoreFields = []"
    by (simp add: validateAIScore_def Let_def check_required_eq check_scores_eq)
  then show ?thesis
    by (auto simp: fails_field_checks_def filter_empty_conv)
qed

section \<open>Validation of weight sets\<close>

text \<open>When every weight is a number or missing, the reduction is the sum in doubles.\<close>

lemma or_zero_number:
  "number_or_absent v \<Longrightarrow> or_zero v = VNum (Fin (weight_of v))"
  by (cases v; cases "the v") (auto simp: weight_of_def)

lemma foldl_total_number:
  "\<forall>f\<in>set fs. number_or_absent (c f) \<Longrightarrow>
   foldl (\<lambda>sum field. js_add h sum (or_zero (c field))) (VNum a) fs
     = VNum (foldl (\<lambda>s field. num_add s (Fin (weight_of (c field)))) a fs)"
proof (induction fs arbitrary: a)
  case Nil
  show ?case by simp
next
  case (Cons f fs)
  then show ?case by (simp add: or_zero_number)
qed

lemma totalWeight_number:
  "\<forall>f\<in>set weightFields. number_or_absent (c f) \<Longrightarrow> totalWeight h c = VNum (double_sum c)"
  using foldl_total_number [of weightFields c h "Fin 0"]
  by (simp add: totalWeight_def double_sum_def)

lemma round_double_not_NaN [simp]: "round_double x \<noteq> NaN"
  by (simp add: round_double_def Let_def)

lemma num_add_Fin_not_NaN: "a \<noteq> NaN \<Longrightarrow> num_add a (Fin w) \<noteq> NaN"
  by (cases a) simp_all

lemma num_add_Fin_rounded: "num_add a (Fin w) = Fin t \<Longrightarrow> \<exists>x. t = fl x"
  by (cases a) (auto simp: round_double_def Let_def split: if_splits)

lemma foldl_sum_not_NaN:
  "a \<noteq> NaN \<Longrightarrow> foldl (\<lambda>s field. num_add s (Fin (g field))) a fs \<noteq> NaN"
  by (induction fs arbitrary: a) (simp_all add: num_add_Fin_not_NaN)

lemma double_sum_not_NaN: "double_sum c \<noteq> NaN"
  unfolding double_sum_def by (rule foldl_sum_not_NaN) simp

lemma double_sum_rounded: "double_sum c = Fin t \<Longrightarrow> \<exists>x. t = fl x"
proof -
  have "double_sum c = num_add (foldl (\<lambda>s field. num_add s (Fin (weight_of (c field)))) (Fin 0)
      (butlast weightFields)) (Fin (weight_of (c (last weightFields))))"
    by (simp add: double_sum_def weightFields_def)
  then show "double_sum c = Fin t \<Longrightarrow> \<exists>x. t = fl x"
    using num_add_Fin_rounded by metis
qed

lemma exceeds_tolerance_PosInf [simp]: "exceeds_tolerance PosInf"
  by (simp add: exceeds_tolerance_def num_sub_def)

lemma exceeds_tolerance_NegInf [simp]: "exceeds_tolerance NegInf"
  by (simp add: exceeds_tolerance_def num_sub_def)

lemma exceeds_tolerance_double_sum:
  "exceeds_tolerance (double_sum c) \<longleftrightarrow> \<not> within_tolerance (double_sum c)"
proof (cases "double_sum c")
  case (Fin t)
  then obtain x where "t = fl x" using double_sum_rounded by blast
  then show ?thesis
    unfolding Fin using exceeds_tolerance_rounded [of x] by (simp add: not_le)
next
  case NaN
  then show ?thesis using double_sum_not_NaN by simp
qed simp_all

text \<open>
  The weights 0.02 and 0.99 are numbers between 0 and 1, and the sum of the two doubles
  is within 0.01 of 1.0; but their sum as a double is the double \<^verbatim>\<open>1.01\<close>, which is
  greater than 1.01, the difference \<^verbatim>\<open>0.010000000000000009\<close> exceeds the double \<^verbatim>\<open>0.01\<close>,
  and \<open>validateCriteria\<close> rejects the weight set.
\<close>

theorem validateCriteria_boundary_counterexample:
  "weights_in_range boundary_weights
   \<and> \<bar>weight_sum boundary_weights - 1.0\<bar> \<le> 0.01
   \<and> \<not> isValid (validateCriteria host0 boundary_weights)"
proof -
  have f: "fl (1 / 50) = 5764607523034235 / 288230376151711744"
    "fl (99 / 100) = 4458563631096791 / 4503599627370496"
    by (simp_all add: dbl_eval)
  have r: "weights_in_range boundary_weights"
    by (simp add: weights_in_range_def weightFields_def boundary_weights_def f)
  have s: "\<bar>weight_sum boundary_weights - 1.0\<bar> \<le> 0.01"
    by (simp add: weight_sum_def weightFields_def boundary_weights_def weight_of_def f)
  have v: "\<not> isValid (validateCriteria host0 boundary_weights)"
    by (simp add: validateCriteria_def totalWeight_def weightFields_def boundary_weights_def
        exceeds_tolerance_def num_sub_def dbl_eval)
  show ?thesis using r s v by blast
qed

text \<open>
  Claim C1, amended. \<open>validateCriteria\<close> accepts a weight set exactly when every weight
  that is present is a number between 0 and 1 and the sum over the seven canonical
  weight names, computed in double arithmetic in the order of the names from 0, a
  missing name counting 0, is within 0.01 of 1.0. Hence an accepted weight set has this
  computed sum between 0.99 and 1.01.
\<close>

theorem validateCriteria_accepts_iff:
  "(isValid (validateCriteria h criteria) \<longleftrightarrow>
      weights_in_range criteria \<and> within_tolerance (double_sum criteria))
   \<and> (isValid (validateCriteria h criteria) \<longrightarrow> from_099_to_101 (double_sum criteria))"
proof -
  have loop: "check_weights criteria weightFields [] = [] \<longleftrightarrow> weights_in_range criteria"
    by (simp add: check_weights_eq filter_empty_conv weights_in_range_def)
  have iff: "isValid (validateCriteria h criteria) \<longleftrightarrow>
      weights_in_range criteria \<and> within_tolerance (double_sum criteria)"
  proof (cases "weights_in_range criteria")
    case True
    then have "\<forall>field\<in>set weightFields. number_or_absent (criteria field)"
      by (simp add: weights_in_range_def weight_in_range_number)
    then have "totalWeight h criteria = VNum (double_sum criteria)"
      by (rule totalWeight_number)
    then show ?thesis
      using True loop
      by (simp add: validateCriteria_def Let_def exceeds_tolerance_double_sum)
  next
    case False
    then have "check_weights criteria weightFields [] \<noteq> []"
      using loop by blast
    then show ?thesis
      using False by (simp add: validateCriteria_def Let_def)
  qed
  have bound: "from_099_to_101 n" if "within_tolerance n" for n
  proof (cases n)
    case (Fin t)
    then have "\<bar>t - 1.0\<bar> \<le> 0.01" using that by simp
    then have "0.99 \<le> t \<and> t \<le> 1.01" unfolding abs_le_iff by simp
    then show ?thesis using Fin by simp
  qed (use that in simp_all)
  show ?thesis using iff bound by blast
qed

theorem validateCriteria_accepts_iff_witness:
  "weights_in_range half_weights
   \<and> double_sum half_weights = Fin 1
   \<and> isValid (validateCriteria host0 half_weights)"
proof -
  have r: "weights_in_range half_weights"
    by (simp add: weights_in_range_def weightFields_def half_weights_def)
  have s: "double_sum half_weights = Fin 1"
    by (simp add: double_sum_def weightFields_def half_weights_def weight_of_def dbl_eval)
  have "isValid (validateCriteria host0 half_weights)"
    using validateCriteria_accepts_iff [of host0 half_weights] r s by simp
  then show ?thesis using r s by simp
qed

section \<open>Completeness of the error lists\<close>

text \<open>
  Claim C7. The weight set with \<^verbatim>\<open>logic_weight: 'high'\<close>, \<^verbatim>\<open>clarity_weight: 0.9\<close> and
  \<^verbatim>\<open>testing_weight: 0.9\<close> has two violations: a weight that is not a number, and a sum of
  1.8. For every host, one call of \<open>validateCriteria\<close> returns the message of the field
  only: the reduction concatenates from the string on, the total is a string that is
  not a numeral, and the comparison of \<^verbatim>\<open>NaN\<close> with the tolerance is false.
\<close>

theorem validateCriteria_string_weight_drops_sum_message:
  "errors (validateCriteria h string_weights) = [''logic_weight must be a number between 0 and 1'']
   \<and> double_sum string_weights = Fin (8106479329266893 / 4503599627370496)
   \<and> \<not> within_tolerance (double_sum string_weights)"
proof -
  have f: "fl (9 / 10) = 8106479329266893 / 9007199254740992"
    by (simp add: dbl_eval)
  have t: "totalWeight h string_weights =
      VStr (numberToString h (Fin 0) @ ''high'' @ numberToString h (Fin (fl (9 / 10)))
        @ numberToString h (Fin (fl (9 / 10))) @ numberToString h (Fin 0)
        @ numberToString h (Fin 0) @ numberToString h (Fin 0) @ numberToString h (Fin 0))"
    by (simp add: totalWeight_def weightFields_def string_weights_def)
  have n: "toNumber h (totalWeight h string_weights) = NaN"
    unfolding t by (simp add: string_number_def never_numeric_def)
  have e: "errors (validateCriteria h string_weights)
      = [''logic_weight must be a number between 0 and 1'']"
    unfolding validateCriteria_def Let_def n
    by (simp add: exceeds_tolerance_def num_sub_def weightFields_def string_weights_def f)
  have m: "map (\<lambda>f. weight_of (string_weights f)) weightFields
      = [0, fl (9 / 10), fl (9 / 10), 0, 0, 0, 0]"
    by (simp add: weightFields_def string_weights_def weight_of_def)
  have "double_sum string_weights
      = foldl num_add (Fin 0) (map Fin (map (\<lambda>f. weight_of (string_weights f)) weightFields))"
    unfolding double_sum_def by (simp add: foldl_map)
  also have "\<dots> = Fin (8106479329266893 / 4503599627370496)"
    unfolding m f by (simp add: dbl_eval)
  finally have s: "double_sum string_weights = Fin (8106479329266893 / 4503599627370496)" .
  have w: "\<not> within_tolerance (Fin (8106479329266893 / 4503599627370496))"
    by simp
  show ?thesis unfolding s using e w by blast
qed

section \<open>Rounding\<close>

lemma half_up_nearest: "of_int (half_up p) - 1 / 2 \<le> p \<and> p < of_int (half_up p) + 1 / 2"
  unfolding half_up_def by (simp; linarith)

lemma half_up_floor: "half_up p = \<lfloor>p + 1 / 2\<rfloor>"
proof -
  have "of_int (half_up p) \<le> p + 1 / 2" "p + 1 / 2 < of_int (half_up p) + 1"
    using half_up_nearest [of p] by linarith+
  then show ?thesis by (simp add: floor_unique)
qed

lemma round_2dp_rounded_2dp: "round_2dp v = rounded_2dp v"
  unfolding round_2dp_def rounded_2dp_def
  by (cases "num_mul v (Fin 100)") (simp_all add: half_up_floor)

text \<open>
  Claim C3. In a result of \<open>calculateFinalScore\<close> the seven contributions are, criterion
  by criterion, the half-up rounding to two decimals of the product of sub-score and
  weight, and the final score is the half-up rounding to two decimals of the sum of the
  seven products; each value is rounded on its own, from the unrounded one.
\<close>

theorem calculateFinalScore_rounds_half_up:
  assumes "calculateFinalScore h aiScore criteria = Inr r"
  shows "[logicContribution r, clarityContribution r, testingContribution r,
          efficiencyContribution r, apiUiContribution r, edgeCasesContribution r,
          creativityContribution r]
       = map (\<lambda>row. rounded_2dp (unrounded_contribution h aiScore criteria row)) criteria_table
     \<and> finalScore_calc r = rounded_2dp (unrounded_final h aiScore criteria)"
proof -
  have o: "(case x of None \<Rightarrow> Some d | Some v \<Rightarrow> Some v) = Some (with_default d x)"
    for d :: json and x
    by (cases x) simp_all
  have w: "(case x of None \<Rightarrow> d | Some v \<Rightarrow> v) = with_default d x" for d :: json and x
    by (cases x) simp_all
  show ?thesis
    using assms
    unfolding calculateFinalScore_def Let_def criteria_table_def unrounded_final_def
      unrounded_contribution_def round_2dp_rounded_2dp
    by (auto simp: o w split: if_splits)
qed

theorem calculateFinalScore_rounds_half_up_witness:
  "calculateFinalScore host0 a3 c3 = Inr (projr (calculateFinalScore host0 a3 c3))
   \<and> unrounded_contribution host0 a3 c3 (hd criteria_table) = Fin 0.125
   \<and> logicContribution (projr (calculateFinalScore host0 a3 c3)) = Fin (fl 0.13)"
proof -
  have f: "fl (1 / 100) = 5764607523034235 / 576460752303423488"
    "fl (99 / 100) = 4458563631096791 / 4503599627370496"
    by (simp_all add: dbl_eval)
  have "\<not> isl (calculateFinalScore host0 a3 c3)"
    by (simp add: calculateFinalScore_def a3_def c3_def f exceeds_tolerance_def num_sub_def dbl_eval)
  then have r: "calculateFinalScore host0 a3 c3 = Inr (projr (calculateFinalScore host0 a3 c3))"
    by (cases "calculateFinalScore host0 a3 c3") simp_all
  have u: "unrounded_contribution host0 a3 c3 (hd criteria_table) = Fin 0.125"
    by (simp add: unrounded_contribution_def criteria_table_def a3_def c3_def f dbl_eval)
  have s: "rounded_2dp (Fin 0.125) = Fin (fl 0.13)"
    by (simp add: rounded_2dp_def half_up_def dbl_eval)
  have "logicContribution (projr (calculateFinalScore host0 a3 c3))
      = rounded_2dp (unrounded_contribution host0 a3 c3 (hd criteria_table))"
    using calculateFinalScore_rounds_half_up [OF r] by (simp add: criteria_table_def)
  then show ?thesis using r u s by simp
qed

text \<open>
  The scaled value is a double: the product of the doubles \<^verbatim>\<open>1.45\<close> and \<^verbatim>\<open>0.1\<close> is the
  double \<^verbatim>\<open>0.145\<close>, its scaling by 100 is \<^verbatim>\<open>14.499999999999998\<close>, and the stored
  contribution is \<^verbatim>\<open>0.14\<close>.
\<close>

lemma calculateFinalScore_rounds_scaled_double:
  "unrounded_contribution h a3b c3b (hd criteria_table) = Fin (fl 0.145)
   \<and> num_mul (Fin (fl 0.145)) (Fin 100) = Fin (fl 14.499999999999998)
   \<and> logicContribution (projr (calculateFinalScore h a3b c3b)) = Fin (fl 0.14)"
proof -
  have f: "fl (1 / 10) = 3602879701896397 / 36028797018963968"
    "fl (9 / 10) = 8106479329266893 / 9007199254740992"
    "fl (29 / 20) = 6530219459687219 / 4503599627370496"
    by (simp_all add: dbl_eval)
  have u: "unrounded_contribution h a3b c3b (hd criteria_table) = Fin (fl 0.145)"
    by (simp add: unrounded_contribution_def criteria_table_def a3b_def c3b_def f dbl_eval)
  have m: "num_mul (Fin (fl 0.145)) (Fin 100) = Fin (fl 14.499999999999998)"
    by (simp add: dbl_eval)
  have "logicContribution (projr (calculateFinalScore h a3b c3b)) = Fin (fl 0.14)"
    by (simp add: calculateFinalScore_def a3b_def c3b_def f exceeds_tolerance_def num_sub_def
        round_2dp_def dbl_eval)
  then show ?thesis using u m by blast
qed

section \<open>The example of the specification\<close>

text \<open>
  Claim C5. On the weights 0.4, 0.3, 0.3, 0.0 of logic, clarity, testing and efficiency
  and the scores 95, 90, 100, 0, \<open>calculateFinalScore\<close> does not return 95.00: the weights
  of api/ui, edge cases and creativity take their defaults 0.20, 0.15 and 0.10, the seven
  weights sum to the double \<^verbatim>\<open>1.45\<close>, and the call raises. \<open>validateCriteria\<close> accepts the
  same weight set, a missing weight counting 0 there. With the three weights given as 0
  the final score is 95.
\<close>

theorem calculateFinalScore_example_raises:
  "calculateFinalScore h scores5 weights5
     = Inl (''Weights must sum to 1.0, got '' @ numberToString h (Fin (fl 1.45)))
   \<and> isValid (validateCriteria h weights5)
   \<and> finalScore_calc (projr (calculateFinalScore h scores5 weights5_explicit)) = Fin 95"
proof -
  have f: "fl (2 / 5) = 3602879701896397 / 9007199254740992"
    "fl (3 / 10) = 5404319552844595 / 18014398509481984"
    "fl (29 / 20) = 6530219459687219 / 4503599627370496"
    by (simp_all add: dbl_eval)
  have a: "calculateFinalScore h scores5 weights5
     = Inl (''Weights must sum to 1.0, got '' @ numberToString h (Fin (fl 1.45)))"
    by (simp add: calculateFinalScore_def scores5_def weights5_def f exceeds_tolerance_def
      num_sub_def dbl_eval)
  have b: "isValid (validateCriteria h weights5)"
    by (simp add: validateCriteria_def totalWeight_def weightFields_def weights5_def f
      exceeds_tolerance_def num_sub_def dbl_eval)
  have c: "finalScore_calc (projr (calculateFinalScore h scores5 weights5_explicit)) = Fin 95"
    by (simp add: calculateFinalScore_def scores5_def weights5_explicit_def f
      exceeds_tolerance_def num_sub_def round_2dp_def dbl_eval)
  show ?thesis using a b c by blast
qed

section \<open>Raw scores that fail their field checks\<close>

lemma calculateFinalScore_raises_by_weights:
  "isl (calculateFinalScore h aiScore criteria) \<longleftrightarrow> isl (calculateFinalScore h anyScore criteria)"
  by (simp add: calculateFinalScore_def Let_def)

lemma calculateFinalScore_breakdown:
  assumes "calculateFinalScore h aiScore criteria = Inr r"
  shows "map score (breakdown_items (breakdown r)) = map (sub_score aiScore) criteria_table"
    and "map contribution (breakdown_items (breakdown r))
       = map (unrounded_contribution h aiScore criteria) criteria_table"
proof -
  have o: "(case x of None \<Rightarrow> Some d | Some v \<Rightarrow> Some v) = Some (with_default d x)"
    for d :: json and x
    by (cases x) simp_all
  have w: "(case x of None \<Rightarrow> d | Some v \<Rightarrow> v) = with_default d x" for d :: json and x
    by (cases x) simp_all
  show "map score (breakdown_items (breakdown r)) = map (sub_score aiScore) criteria_table"
    using assms
    unfolding calculateFinalScore_def Let_def criteria_table_def breakdown_items_def
    by (auto simp: o split: if_splits)
  show "map contribution (breakdown_items (breakdown r))
       = map (unrounded_contribution h aiScore criteria) criteria_table"
    using assms
    unfolding calculateFinalScore_def Let_def criteria_table_def breakdown_items_def
      unrounded_contribution_def
    by (auto simp: o w split: if_splits)
qed

text \<open>
  A raw score with \<^verbatim>\<open>logic_score\<close> at 150 fails its field checks, and \<open>calculateFinalScore\<close>
  returns a result for it under the default weights, with final score 61.5.
\<close>

theorem calculateFinalScore_no_score_check_counterexample:
  "\<not> isValid (validateAIScore score150)
   \<and> errors (validateAIScore score150) = [''logic_score must be a number between 0 and 100'']
   \<and> \<not> isl (calculateFinalScore host0 score150 Map.empty)
   \<and> finalScore_calc (projr (calculateFinalScore host0 score150 Map.empty)) = Fin 61.5"
proof -
  have "errors (validateAIScore score150) = [''logic_score must be a number between 0 and 100'']"
    by (simp add: validateAIScore_def Let_def required_def scoreFields_def score150_def)
  moreover have "isValid (validateAIScore score150) = (errors (validateAIScore score150) = [])"
    by (simp add: validateAIScore_def Let_def)
  moreover have "\<not> isl (calculateFinalScore host0 score150 Map.empty)
   \<and> finalScore_calc (projr (calculateFinalScore host0 score150 Map.empty)) = Fin 61.5"
    by (simp add: calculateFinalScore_def score150_def exceeds_tolerance_def num_sub_def
      round_2dp_def dbl_eval)
  ultimately show ?thesis by simp
qed

text \<open>
  Claim C4, amended. A raw score that fails its field checks is rejected by
  \<open>validateAIScore\<close>, with a non-empty error list. \<open>calculateFinalScore\<close> does not check the
  raw score: for one weight set it raises for every raw score or for none. In a result
  it returns, the breakdown holds each of the seven sub-scores as it was given, the four
  optional ones being 0 only when they are \<^verbatim>\<open>undefined\<close>, and each contribution of the
  breakdown is the product of that sub-score and its weight: no sub-score is clamped.
\<close>

theorem raw_score_checked_by_validator_only:
  "(fails_field_checks aiScore \<longrightarrow>
      \<not> isValid (validateAIScore aiScore) \<and> errors (validateAIScore aiScore) \<noteq> [])
   \<and> (isl (calculateFinalScore h aiScore criteria) \<longleftrightarrow> isl (calculateFinalScore h anyScore criteria))
   \<and> (calculateFinalScore h aiScore criteria = Inr r \<longrightarrow>
        map score (breakdown_items (breakdown r)) = map (sub_score aiScore) criteria_table
        \<and> map contribution (breakdown_items (breakdown r))
            = map (unrounded_contribution h aiScore criteria) criteria_table)"
proof (intro conjI impI)
  assume f: "fails_field_checks aiScore"
  then show "\<not> isValid (validateAIScore aiScore)"
    by (simp add: validateAIScore_isValid_iff)
  have "isValid (validateAIScore aiScore) = (errors (validateAIScore aiScore) = [])"
    by (simp add: validateAIScore_def Let_def)
  then show "errors (validateAIScore aiScore) \<noteq> []"
    using f by (simp add: validateAIScore_isValid_iff)
next
  show "isl (calculateFinalScore h aiScore criteria) \<longleftrightarrow> isl (calculateFinalScore h anyScore criteria)"
    by (rule calculateFinalScore_raises_by_weights)
qed (simp_all add: calculateFinalScore_breakdown)

theorem raw_score_checked_by_validator_only_witness:
  "fails_field_checks score150
   \<and> \<not> isValid (validateAIScore score150)
   \<and> \<not> isl (calculateFinalScore host0 score100 Map.empty)
   \<and> calculateFinalScore host0 score150 Map.empty
       = Inr (projr (calculateFinalScore host0 score150 Map.empty))
   \<and> score (logic (breakdown (projr (calculateFinalScore host0 score150 Map.empty))))
       = Some (JNum 150)
   \<and> contribution (logic (breakdown (projr (calculateFinalScore host0 score150 Map.empty))))
       = Fin 37.5"
proof -
  note inst = raw_score_checked_by_validator_only [of score150 host0 Map.empty score100
      "projr (calculateFinalScore host0 score150 Map.empty)"]
  have f: "fails_field_checks score150"
    by (simp add: fails_field_checks_def scoreFields_def score150_def)
  have v: "\<not> isValid (validateAIScore score150)"
    using inst f by blast
  have t: "\<not> isl (calculateFinalScore host0 score100 Map.empty)"
    by (simp add: calculateFinalScore_def score100_def exceeds_tolerance_def num_sub_def dbl_eval)
  then have "\<not> isl (calculateFinalScore host0 score150 Map.empty)"
    using inst by blast
  then have r: "calculateFinalScore host0 score150 Map.empty
      = Inr (projr (calculateFinalScore host0 score150 Map.empty))"
    by (cases "calculateFinalScore host0 score150 Map.empty") simp_all
  have k: "map score (breakdown_items (breakdown (projr (calculateFinalScore host0 score150 Map.empty))))
      = map (sub_score score150) criteria_table"
    and p: "map contribution
        (breakdown_items (breakdown (projr (calculateFinalScore host0 score150 Map.empty))))
      = map (unrounded_contribution host0 score150 Map.empty) criteria_table"
    using inst r by blast+
  have s: "score (logic (breakdown (projr (calculateFinalScore host0 score150 Map.empty))))
      = Some (JNum 150)"
    using k by (simp add: breakdown_items_def criteria_table_def score150_def)
  have u: "unrounded_contribution host0 score150 Map.empty (hd criteria_table) = Fin 37.5"
    by (simp add: unrounded_contribution_def criteria_table_def score150_def dbl_eval)
  have "contribution (logic (breakdown (projr (calculateFinalScore host0 score150 Map.empty))))
      = Fin 37.5"
    using p u by (simp add: breakdown_items_def criteria_table_def)
  then show ?thesis using f v t r s by blast
qed

section \<open>The ranking loop\<close>

declare rank_loop.simps [simp del]

lemma rank_loop_ranks_from:
  "i \<le> length ss \<Longrightarrow> rank_loop ss i cr prev acc = acc @ ranks_from i cr prev (drop i ss)"
proof (induction ss i cr prev acc rule: rank_loop.induct)
  case (1 ss i cr prev acc)
  show ?case
  proof (cases "i < length ss")
    case True
    then have d: "drop i ss = ss ! i # drop (Suc i) ss"
      by (simp add: Cons_nth_drop_Suc)
    show ?thesis
      using True "1.IH" [OF True refl refl]
      by (subst rank_loop.simps) (simp add: d Let_def)
  next
    case False
    then show ?thesis using "1.prems" by (subst rank_loop.simps) simp
  qed
qed

lemma insert_by_insort_key:
  "insert_by by_score_desc x ys = insort_key (\<lambda>s. - finalScore s) x ys"
  by (induction ys) (simp_all add: by_score_desc_def)

lemma array_sort_sort_key:
  "array_sort by_score_desc xs = sort_key (\<lambda>s. - finalScore s) xs"
  by (induction xs) (simp_all add: array_sort_def sort_key_def insert_by_insort_key)

lemma calculateRankings_nonempty:
  "xs \<noteq> [] \<Longrightarrow> calculateRankings (Some xs)
     = ranks_from 0 1 None (sort_key (\<lambda>s. - finalScore s) xs)"
  by (simp add: calculateRankings_def Let_def rank_loop_ranks_from array_sort_sort_key)

lemma calculateRankings_Some:
  "calculateRankings (Some xs) = ranks_from 0 1 None (sort_key (\<lambda>s. - finalScore s) xs)"
  by (cases "xs = []") (simp_all add: calculateRankings_nonempty, simp add: calculateRankings_def)

lemma length_ranks_from [simp]: "length (ranks_from i cr prev xs) = length xs"
  by (induction xs arbitrary: i cr prev) (simp_all add: Let_def)

lemma without_rank_with_rank [simp]: "without_rank (with_rank s r) = s"
  by (simp add: without_rank_def with_rank_def)

lemma rank_with_rank [simp]: "rank (with_rank s r) = r"
  by (simp add: with_rank_def)

lemma finalScore_with_rank [simp]: "finalScore (with_rank s r) = finalScore s"
  by (simp add: with_rank_def)

lemma map_without_rank_ranks_from [simp]:
  "map without_rank (ranks_from i cr prev xs) = xs"
  by (induction xs arbitrary: i cr prev) (simp_all add: Let_def)

lemma rank_ranks_from_nth:
  "j < length xs \<Longrightarrow>
   rank (ranks_from i cr prev xs ! j) =
     (if j = 0
      then (if prev \<noteq> None \<and> Some (finalScore (xs ! 0)) \<noteq> prev then i + 1 else cr)
      else if finalScore (xs ! j) \<noteq> finalScore (xs ! (j - 1)) then i + j + 1
      else rank (ranks_from i cr prev xs ! (j - 1)))"
proof (induction xs arbitrary: i cr prev j)
  case Nil
  then show ?case by simp
next
  case (Cons s rest)
  show ?case
  proof (cases j)
    case 0
    then show ?thesis by (simp add: Let_def)
  next
    case (Suc k)
    then have k: "k < length rest" using Cons.prems by simp
    show ?thesis
      using Cons.IH [OF k] Suc
      by (cases k) (auto simp: Let_def)
  qed
qed

section \<open>Ranking\<close>

lemma descending_sorted_neg:
  "descending (map finalScore xs) \<longleftrightarrow> sorted (map (\<lambda>s. - finalScore s) xs)"
  by (simp add: descending_def sorted_wrt_map)

lemma ranking_law_ranks_from:
  "ranking_law (map finalScore xs) (map rank (ranks_from 0 1 None xs))"
  unfolding ranking_law_def
proof (intro conjI allI impI)
  show "length (map rank (ranks_from 0 1 None xs)) = length (map finalScore xs)"
    by simp
next
  fix i assume "i < length (map finalScore xs)"
  then have i: "i < length xs" by simp
  show "map rank (ranks_from 0 1 None xs) ! i =
         (if i = 0 then 1
          else if map finalScore xs ! i \<noteq> map finalScore xs ! (i - 1) then i + 1
          else map rank (ranks_from 0 1 None xs) ! (i - 1))"
    using rank_ranks_from_nth [OF i, of 0 1 None] i by (auto simp: nth_map)
qed

text \<open>
  Claim C2. On an input sorted descending by final score, \<open>calculateRankings\<close> keeps the
  entries in place and ranks them by the ranking law: rank 1 for the first entry, the
  position for an entry whose final score differs from the previous one, the previous rank
  otherwise. The final scores 95.00, 95.00, 86.50 get the ranks 1, 1, 3.
\<close>

theorem calculateRankings_ranking_law:
  assumes "descending (map finalScore scores)"
  shows "map without_rank (calculateRankings (Some scores)) = scores
     \<and> ranking_law (map finalScore scores) (map rank (calculateRankings (Some scores)))
     \<and> map rank (calculateRankings (Some [entry 95.00 (1::nat), entry 95.00 2, entry 86.50 3]))
         = [1, 1, 3]"
proof -
  have "sort_key (\<lambda>s. - finalScore s) scores = scores"
    using assms by (simp add: descending_sorted_neg sort_key_id_if_sorted)
  then have out: "calculateRankings (Some scores) = ranks_from 0 1 None scores"
    by (simp add: calculateRankings_Some)
  have ex: "map rank (calculateRankings (Some [entry 95.00 (1::nat), entry 95.00 2, entry 86.50 3]))
         = [1, 1, 3]"
    by (simp add: calculateRankings_Some entry_def Let_def)
  show ?thesis
    unfolding out using ranking_law_ranks_from [of scores] ex by simp
qed

theorem calculateRankings_ranking_law_witness:
  "descending (map finalScore [entry 95.00 ''ann'', entry 95.00 ''bob'', entry 86.50 ''cy''])
   \<and> calculateRankings (Some [entry 95.00 ''ann'', entry 95.00 ''bob'', entry 86.50 ''cy''])
      = [with_rank (entry 95.00 ''ann'') 1, with_rank (entry 95.00 ''bob'') 1,
         with_rank (entry 86.50 ''cy'') 3]"
proof -
  let ?xs = "[entry 95.00 ''ann'', entry 95.00 ''bob'', entry 86.50 ''cy'']"
  have d: "descending (map finalScore ?xs)"
    by (simp add: descending_def entry_def)
  have w: "map without_rank (calculateRankings (Some ?xs)) = ?xs"
    and law: "ranking_law (map finalScore ?xs) (map rank (calculateRankings (Some ?xs)))"
    using calculateRankings_ranking_law [OF d] by simp_all
  have len: "length (calculateRankings (Some ?xs)) = 3"
    using law by (simp add: ranking_law_def)
  have "calculateRankings (Some ?xs) = ranks_from 0 1 None ?xs"
    by (simp add: calculateRankings_Some entry_def Let_def)
  then show ?thesis using d w len by (simp add: entry_def Let_def with_rank_def)
qed

text \<open>
  Claim C8. \<open>calculateRankings\<close> of the empty collection is the empty sequence; no error
  is raised.
\<close>

theorem calculateRankings_empty:
  "calculateRankings (Some []) = [] \<and> calculateRankings None = []"
  by (simp add: calculateRankings_def)

lemma ranks_from_Cons:
  "ranks_from i cr prev (s # rest) =
     with_rank s (if prev \<noteq> None \<and> Some (finalScore s) \<noteq> prev then i + 1 else cr)
     # ranks_from (i + 1) (if prev \<noteq> None \<and> Some (finalScore s) \<noteq> prev then i + 1 else cr)
         (Some (finalScore s)) rest"
  by (simp add: Let_def)

lemma ranks_from_lower:
  "cr \<le> i + 1 \<Longrightarrow> \<forall>e\<in>set (ranks_from i cr prev xs). cr \<le> rank e"
proof (induction xs arbitrary: i cr prev)
  case Nil
  show ?case by simp
next
  case (Cons s rest)
  define r where "r = (if prev \<noteq> None \<and> Some (finalScore s) \<noteq> prev then i + 1 else cr)"
  have r: "cr \<le> r" "r \<le> (i + 1) + 1" using Cons.prems by (auto simp: r_def)
  have "\<forall>e\<in>set (ranks_from (i + 1) r (Some (finalScore s)) rest). r \<le> rank e"
    using Cons.IH [OF r(2)] .
  then have "\<forall>e\<in>set (ranks_from (i + 1) r (Some (finalScore s)) rest). cr \<le> rank e"
    using r(1) by auto
  then show ?case
    unfolding ranks_from_Cons r_def [symmetric] using r(1) by simp
qed

lemma ranks_from_sorted:
  "cr \<le> i + 1 \<Longrightarrow> sorted (map rank (ranks_from i cr prev xs))"
proof (induction xs arbitrary: i cr prev)
  case Nil
  show ?case by simp
next
  case (Cons s rest)
  define r where "r = (if prev \<noteq> None \<and> Some (finalScore s) \<noteq> prev then i + 1 else cr)"
  have r: "r \<le> (i + 1) + 1" using Cons.prems by (auto simp: r_def)
  show ?case
    unfolding ranks_from_Cons r_def [symmetric]
    using Cons.IH [OF r] ranks_from_lower [OF r, of "Some (finalScore s)" rest]
    by simp
qed

lemma ranks_from_upper:
  "cr \<le> i + 1 \<Longrightarrow> j < length xs \<Longrightarrow> rank (ranks_from i cr prev xs ! j) \<le> i + j + 1"
proof (induction xs arbitrary: i cr prev j)
  case Nil
  then show ?case by simp
next
  case (Cons s rest)
  define r where "r = (if prev \<noteq> None \<and> Some (finalScore s) \<noteq> prev then i + 1 else cr)"
  have r: "r \<le> (i + 1) + 1" "r \<le> i + 1" using Cons.prems by (auto simp: r_def)
  show ?case
  proof (cases j)
    case 0
    then show ?thesis unfolding ranks_from_Cons r_def [symmetric] using r(2) by simp
  next
    case (Suc k)
    then have "k < length rest" using Cons.prems by simp
    from Cons.IH [OF r(1) this, of "Some (finalScore s)"] show ?thesis
      unfolding ranks_from_Cons r_def [symmetric] using Suc by simp
  qed
qed

text \<open>
  Claim C9. For a non-empty input the first entry of the output has rank 1, the ranks
  never decrease along the output, and no rank exceeds the position of its entry.
\<close>

theorem calculateRankings_rank_invariants:
  assumes "scores \<noteq> []"
  shows "calculateRankings (Some scores) \<noteq> []
     \<and> rank (hd (calculateRankings (Some scores))) = 1
     \<and> sorted (map rank (calculateRankings (Some scores)))
     \<and> (\<forall>i<length (calculateRankings (Some scores)).
           rank (calculateRankings (Some scores) ! i) \<le> i + 1)"
proof -
  let ?ss = "sort_key (\<lambda>s. - finalScore s) scores"
  have out: "calculateRankings (Some scores) = ranks_from 0 1 None ?ss"
    by (rule calculateRankings_Some)
  have ne: "?ss \<noteq> []" using assms by (metis length_sort length_0_conv)
  then obtain s rest where ss: "?ss = s # rest" by (cases ?ss) auto
  have "rank (hd (ranks_from 0 1 None ?ss)) = 1"
    unfolding ss by (simp add: Let_def)
  moreover have "ranks_from 0 1 None ?ss \<noteq> []"
    unfolding ss by (simp add: Let_def)
  moreover have "sorted (map rank (ranks_from 0 1 None ?ss))"
    by (rule ranks_from_sorted) simp
  moreover have "\<forall>i<length (ranks_from 0 1 None ?ss). rank (ranks_from 0 1 None ?ss ! i) \<le> i + 1"
    using ranks_from_upper [of 1 0 _ ?ss None] by simp
  ultimately show ?thesis unfolding out by blast
qed

theorem calculateRankings_rank_invariants_witness:
  "[entry 70 ''a'', entry 90 ''b'', entry 70 ''c'', entry 80 ''d''] \<noteq> []
   \<and> map rank (calculateRankings (Some [entry 70 ''a'', entry 90 ''b'', entry 70 ''c'', entry 80 ''d'']))
       = [1, 2, 3, 3]
   \<and> sorted [1, 2, 3, 3 :: nat]"
proof -
  let ?xs = "[entry 70 ''a'', entry 90 ''b'', entry 70 ''c'', entry 80 ''d'']"
  have ne: "?xs \<noteq> []" by simp
  have r: "map rank (calculateRankings (Some ?xs)) = [1, 2, 3, 3]"
    by (simp add: calculateRankings_Some entry_def Let_def)
  have "sorted (map rank (calculateRankings (Some ?xs)))"
    using calculateRankings_rank_invariants [OF ne] by blast
  then show ?thesis using r by simp
qed

text \<open>
  Claim C6. The output of \<open>calculateRankings\<close> is ordered descending by final score, and
  entries with equal final scores are in the order of the input.
\<close>

theorem calculateRankings_stable_descending:
  "sorted_wrt (\<lambda>a b. finalScore a \<ge> finalScore b) (calculateRankings (Some scores))
   \<and> ties_keep_input_order scores (map without_rank (calculateRankings (Some scores)))
   \<and> length (calculateRankings (Some scores)) = length scores"
proof -
  let ?ss = "sort_key (\<lambda>s. - finalScore s) scores"
  have out: "calculateRankings (Some scores) = ranks_from 0 1 None ?ss"
    by (rule calculateRankings_Some)
  have "sorted (map (\<lambda>s. - finalScore s) ?ss)"
    by (rule sorted_sort_key)
  then have "sorted_wrt (\<lambda>a b. finalScore a \<ge> finalScore b) ?ss"
    by (simp add: sorted_wrt_map)
  then have "sorted_wrt (\<lambda>a b. finalScore a \<ge> finalScore b)
      (map without_rank (ranks_from 0 1 None ?ss))"
    by simp
  then have d: "sorted_wrt (\<lambda>a b. finalScore a \<ge> finalScore b) (ranks_from 0 1 None ?ss)"
    unfolding sorted_wrt_map by (simp add: without_rank_def)
  have "filter (\<lambda>e. finalScore e = k) ?ss = filter (\<lambda>e. finalScore e = k) scores" for k
    using sort_key_stable [of "\<lambda>s. - finalScore s" "- k" scores] by simp
  then have t: "ties_keep_input_order scores (map without_rank (ranks_from 0 1 None ?ss))"
    by (simp add: ties_keep_input_order_def)
  show ?thesis unfolding out using d t by simp
qed

theorem calculateRankings_stable_descending_witness:
  "map other (calculateRankings (Some [entry 70 ''a'', entry 90 ''b'', entry 70 ''c'', entry 90 ''d'']))
     = [''b'', ''d'', ''a'', ''c'']
   \<and> filter (\<lambda>e. finalScore e = 70)
        (map without_rank (calculateRankings (Some [entry 70 ''a'', entry 90 ''b'', entry 70 ''c'', entry 90 ''d''])))
     = [entry 70 ''a'', entry 70 ''c'']"
proof -
  let ?xs = "[entry 70 ''a'', entry 90 ''b'', entry 70 ''c'', entry 90 ''d'']"
  have "ties_keep_input_order ?xs (map without_rank (calculateRankings (Some ?xs)))"
    using calculateRankings_stable_descending [of ?xs] by blast
  then have "filter (\<lambda>e. finalScore e = 70) (map without_rank (calculateRankings (Some ?xs)))
      = filter (\<lambda>e. finalScore e = 70) ?xs"
    unfolding ties_keep_input_order_def by blast
  moreover have "map other (calculateRankings (Some ?xs)) = [''b'', ''d'', ''a'', ''c'']"
    by (simp add: calculateRankings_Some entry_def Let_def with_rank_def)
  ultimately show ?thesis by (simp add: entry_def)
qed

section \<open>The store is only extended\<close>

lemma array_at_append [simp]:
  "a < length H \<Longrightarrow> array_at (H @ G) a = array_at H a"
  by (simp add: array_at_def nth_append)

lemma object_at_append [simp]:
  "p < length H \<Longrightarrow> object_at (H @ G) p = object_at H p"
  by (simp add: object_at_def nth_append)

lemma object_at_update [simp]:
  "p \<noteq> a \<Longrightarrow> object_at (H[a := c]) p = object_at H p"
  by (simp add: object_at_def)

lemma object_at_less: "object_at H p = Some s \<Longrightarrow> p < length H"
  by (simp add: object_at_def split: if_splits)

lemma deref_all_fst: "deref_all H ps = Some es \<Longrightarrow> map fst es = ps"
  by (induction ps arbitrary: es) (auto split: option.splits)

lemma deref_all_object:
  "deref_all H ps = Some es \<Longrightarrow> (p, s) \<in> set es \<Longrightarrow> object_at H p = Some s"
  by (induction ps arbitrary: es) (auto split: option.splits)

lemma deref_all_cong:
  "(\<And>p. p \<in> set ps \<Longrightarrow> object_at G p = object_at H p) \<Longrightarrow> deref_all G ps = deref_all H ps"
  by (induction ps) (simp_all split: option.splits)

lemma deref_all_append [simp]:
  "deref_all H ps = Some es \<Longrightarrow> deref_all (H @ G) ps = Some es"
proof -
  assume a: "deref_all H ps = Some es"
  have "object_at (H @ G) p = object_at H p" if "p \<in> set ps" for p
  proof -
    have "p \<in> set (map fst es)" using that deref_all_fst [OF a] by simp
    then obtain s where "(p, s) \<in> set es" by auto
    then have "p < length H" using deref_all_object [OF a] object_at_less by blast
    then show ?thesis by simp
  qed
  then show ?thesis using a deref_all_cong [of ps "H @ G" H] by simp
qed

lemma ranked_object_with_rank [simp]:
  "ranked_object (with_rank s r) = ObjectCell s (Some r)"
  by (simp add: ranked_object_def)

lemma array_at_nth: "a < length H \<Longrightarrow> H ! a = ArrayCell refs \<Longrightarrow> array_at H a = Some refs"
  by (simp add: array_at_def)

lemma rank_loop_store_Cons:
  assumes "object_at H p = Some s"
    and "r = (if prev \<noteq> None \<and> Some (finalScore s) \<noteq> prev then i + 1 else cr)"
    and "array_at (H @ [ObjectCell s (Some r)]) rs = Some acc"
  shows "rank_loop_store H rs (p # ps) i cr prev =
     rank_loop_store ((H @ [ObjectCell s (Some r)])[rs := ArrayCell (acc @ [length H])]) rs ps
       (i + 1) r (Some (finalScore s))"
  using assms(1,3) unfolding assms(2) by (simp add: Let_def)

lemma rank_loop_store_result:
  assumes "rs < length H" and "H ! rs = ArrayCell acc" and "deref_all H ps = Some es"
  shows "rank_loop_store H rs ps i cr prev =
     Some ((H @ map ranked_object (ranks_from i cr prev (map snd es)))
             [rs := ArrayCell (acc @ [length H ..< length H + length ps])])"
  using assms
proof (induction ps arbitrary: H acc es i cr prev)
  case Nil
  have "H[rs := ArrayCell acc] = H"
    using Nil.prems(2) list_update_id [of H rs] by simp
  then show ?case using Nil.prems(3) by simp
next
  case (Cons p ps)
  from Cons.prems(3) obtain s es' where
    s: "object_at H p = Some s" and es': "deref_all H ps = Some es'" and es: "es = (p, s) # es'"
    by (auto split: option.splits)
  define r where "r = (if prev \<noteq> None \<and> Some (finalScore s) \<noteq> prev then i + 1 else cr)"
  define H1 where "H1 = H @ [ObjectCell s (Some r)]"
  define H2 where "H2 = H1[rs := ArrayCell (acc @ [length H])]"
  have a1: "array_at H1 rs = Some acc"
    using Cons.prems(1,2) by (simp add: H1_def array_at_nth)
  have step: "rank_loop_store H rs (p # ps) i cr prev
      = rank_loop_store H2 rs ps (i + 1) r (Some (finalScore s))"
    using rank_loop_store_Cons [OF s r_def a1 [unfolded H1_def]] by (simp add: H2_def H1_def)
  have l2: "rs < length H2" "H2 ! rs = ArrayCell (acc @ [length H])" "length H2 = Suc (length H)"
    using Cons.prems(1) by (simp_all add: H2_def H1_def)
  have "object_at H2 q = object_at H q" if "q \<in> set ps" for q
  proof -
    have "q \<in> set (map fst es')" using that deref_all_fst [OF es'] by simp
    then obtain t where "(q, t) \<in> set es'" by auto
    then have o: "object_at H q = Some t" using deref_all_object [OF es'] by blast
    have "q \<noteq> rs" using o Cons.prems(1,2) by (auto simp: object_at_def)
    moreover have "q < length H" using o by (rule object_at_less)
    ultimately show ?thesis by (simp add: H2_def H1_def)
  qed
  then have d2: "deref_all H2 ps = Some es'"
    using es' deref_all_cong [of ps H2 H] by simp
  have upt: "(acc @ [length H]) @ [Suc (length H) ..< Suc (length H) + length ps]
      = acc @ [length H ..< length H + length (p # ps)]"
  proof -
    have "[length H ..< length H + length (p # ps)]
        = length H # [Suc (length H) ..< length H + length (p # ps)]"
      by (rule upt_conv_Cons) simp
    moreover have "Suc (length H) + length ps = length H + length (p # ps)"
      by simp
    ultimately show ?thesis
      by (simp only: append_assoc append_Cons append_Nil)
  qed
  have heap: "(H2 @ ys)[rs := c] = (H @ ObjectCell s (Some r) # ys)[rs := c]" for ys c
    using Cons.prems(1) by (simp add: H2_def H1_def list_update_append1)
  show ?case
    unfolding step Cons.IH [OF l2(1,2) d2] l2(3) upt heap
    by (simp add: es Let_def r_def)
qed

lemma set_insert_by [simp]: "set (insert_by cmp x ys) = insert x (set ys)"
  by (induction ys) auto

lemma set_array_sort [simp]: "set (array_sort cmp xs) = set xs"
  by (induction xs) (simp_all add: array_sort_def)

lemma length_insert_by [simp]: "length (insert_by cmp x ys) = Suc (length ys)"
  by (induction ys) auto

lemma length_array_sort [simp]: "length (array_sort cmp xs) = length xs"
  by (induction xs) (simp_all add: array_sort_def)

lemma map_snd_insert_by:
  "map snd (insert_by by_referenced_score_desc x ys)
     = insert_by by_score_desc (snd x) (map snd ys)"
  by (induction ys) (simp_all add: by_referenced_score_desc_def by_score_desc_def)

lemma map_snd_array_sort:
  "map snd (array_sort by_referenced_score_desc es) = array_sort by_score_desc (map snd es)"
  by (induction es) (simp_all add: array_sort_def map_snd_insert_by)

lemma deref_all_map_fst:
  "\<forall>x\<in>set es. object_at H (fst x) = Some (snd x) \<Longrightarrow> deref_all H (map fst es) = Some es"
  by (induction es) auto

lemma ranked_cell_ranked_object [simp]: "ranked_cell (ranked_object e) = Some e"
  by (simp add: ranked_object_def with_rank_def without_rank_def)

lemma ranked_at_fresh:
  "ranked_at ((G @ map ranked_object es)[a := c]) [length G ..< length G + length es]
     = map Some es" if "a < length G"
proof (rule nth_equalityI)
  show "length (ranked_at ((G @ map ranked_object es)[a := c]) [length G ..< length G + length es])
      = length (map Some es)"
    by (simp add: ranked_at_def)
next
  fix j
  assume "j < length (ranked_at ((G @ map ranked_object es)[a := c])
      [length G ..< length G + length es])"
  then have j: "j < length es" by (simp add: ranked_at_def)
  then show "ranked_at ((G @ map ranked_object es)[a := c]) [length G ..< length G + length es] ! j
      = map Some es ! j"
    using that by (simp add: ranked_at_def nth_append)
qed

text \<open>
  Claim C10. \<open>calculateRankings\<close> does not modify its input. When the argument is an array
  of score objects, the call returns, every cell of the store before the call (the input
  array and each score object among them) is unchanged after it, the returned array and
  the objects it holds are newly allocated, and these objects are the ranking of the
  input entries.
\<close>

theorem calculateRankings_store_frame:
  assumes "array_at H a = Some refs" and "deref_all H refs = Some es"
  shows "\<exists>H' out outs.
      calculateRankings_store H (Some a) = Some (H', out)
    \<and> (\<forall>p<length H. H' ! p = H ! p)
    \<and> length H \<le> out
    \<and> array_at H' out = Some outs
    \<and> (\<forall>q\<in>set outs. length H \<le> q)
    \<and> ranked_at H' outs = map Some (calculateRankings (Some (map snd es)))"
proof (cases "refs = []")
  case True
  then have "es = []" using deref_all_fst [OF assms(2)] by simp
  then show ?thesis
    using True assms(1)
    by (simp add: calculateRankings_store_def calculateRankings_def array_at_def ranked_at_def
        nth_append)
next
  case False
  define n where "n = length H"
  define sorted_es where "sorted_es = array_sort by_referenced_score_desc es"
  define H1 where "H1 = H @ [ArrayCell refs]"
  define H2 where "H2 = H1[n := ArrayCell (map fst sorted_es)]"
  define H3 where "H3 = H2 @ [ArrayCell []]"
  define rs where "rs = ranks_from 0 1 None (map snd sorted_es)"
  define H4 where "H4 = (H3 @ map ranked_object rs)
      [Suc n := ArrayCell ([] @ [length H3 ..< length H3 + length (map fst sorted_es)])]"
  have len: "length H1 = Suc n" "length H2 = Suc n" "length H3 = Suc (Suc n)"
    by (simp_all add: H1_def H2_def H3_def n_def)
  have old: "object_at H p = Some s" if "(p, s) \<in> set es" for p s
    using deref_all_object [OF assms(2) that] .
  have sort: "sort_in_place H1 n = Some H2"
    using assms(2) by (simp add: sort_in_place_def H1_def H2_def n_def array_at_def sorted_es_def)
  have a3: "array_at H3 n = Some (map fst sorted_es)"
    by (simp add: H3_def H2_def H1_def n_def array_at_def)
  have "object_at H3 p = Some s" if "(p, s) \<in> set sorted_es" for p s
  proof -
    have o: "object_at H p = Some s" using that old by (simp add: sorted_es_def)
    then have "p < n" unfolding n_def by (rule object_at_less)
    then show ?thesis using o by (simp add: H3_def H2_def H1_def n_def len)
  qed
  then have d3: "deref_all H3 (map fst sorted_es) = Some sorted_es"
    by (intro deref_all_map_fst) auto
  have loop: "rank_loop_store H3 (Suc n) (map fst sorted_es) 0 1 None = Some H4"
    unfolding H4_def rs_def
    by (rule rank_loop_store_result [OF _ _ d3]) (simp_all add: len H3_def nth_append)
  have run: "calculateRankings_store H (Some a) = Some (H4, Suc n)"
    using False assms(1) sort a3 loop
    by (simp add: calculateRankings_store_def Let_def n_def [symmetric] H1_def [symmetric]
        len H3_def [symmetric])
  have frame: "\<forall>p<length H. H4 ! p = H ! p"
    by (simp add: H4_def H3_def H2_def H1_def n_def nth_append)
  have lrs: "length rs = length sorted_es"
    by (simp add: rs_def)
  have out: "array_at H4 (Suc n) = Some [length H3 ..< length H3 + length rs]"
    by (simp add: H4_def array_at_def len lrs)
  have fresh: "\<forall>q\<in>set [length H3 ..< length H3 + length rs]. length H \<le> q"
    by (simp add: len n_def del: upt_Suc)
  have "rs = calculateRankings (Some (map snd es))"
    by (simp add: rs_def sorted_es_def map_snd_array_sort calculateRankings_Some
        array_sort_sort_key)
  moreover have "ranked_at H4 [length H3 ..< length H3 + length rs] = map Some rs"
    unfolding H4_def by (rule ranked_at_fresh) (simp add: len)
  ultimately have abs: "ranked_at H4 [length H3 ..< length H3 + length rs]
      = map Some (calculateRankings (Some (map snd es)))"
    by simp
  show ?thesis
    using run frame out fresh abs by (auto simp: n_def)
qed

theorem calculateRankings_store_frame_witness:
  "array_at store0 2 = Some [0, 1]
   \<and> deref_all store0 [0, 1] = Some [(0, entry 70 ''a''), (1, entry 90 ''b'')]
   \<and> calculateRankings_store store0 (Some 2) =
       Some (store0 @ [ArrayCell [1, 0], ArrayCell [5, 6],
               ObjectCell (entry 90 ''b'') (Some 1), ObjectCell (entry 70 ''a'') (Some 2)], 4)
   \<and> calculateRankings (Some [entry 70 ''a'', entry 90 ''b''])
       = [with_rank (entry 90 ''b'') 1, with_rank (entry 70 ''a'') 2]"
proof -
  have a: "array_at store0 2 = Some [0, 1]"
    by (simp add: array_at_def store0_def)
  have d: "deref_all store0 [0, 1] = Some [(0, entry 70 ''a''), (1, entry 90 ''b'')]"
    by (simp add: object_at_def store0_def)
  have run: "calculateRankings_store store0 (Some 2) =
       Some (store0 @ [ArrayCell [1, 0], ArrayCell [5, 6],
               ObjectCell (entry 90 ''b'') (Some 1), ObjectCell (entry 70 ''a'') (Some 2)], 4)"
    by (simp add: calculateRankings_store_def sort_in_place_def array_at_def object_at_def
        store0_def Let_def array_sort_def by_referenced_score_desc_def entry_def)
  obtain H' out outs where
    r: "calculateRankings_store store0 (Some 2) = Some (H', out)"
    and o: "array_at H' out = Some outs"
    and e: "ranked_at H' outs = map Some (calculateRankings
        (Some (map snd [(0::nat, entry 70 ''a''), (1, entry 90 ''b'')])))"
    using calculateRankings_store_frame [OF a d] by blast
  have H': "H' = store0 @ [ArrayCell [1, 0], ArrayCell [5, 6],
               ObjectCell (entry 90 ''b'') (Some 1), ObjectCell (entry 70 ''a'') (Some 2)]"
    and out: "out = 4"
    using r run by simp_all
  have outs: "outs = [5, 6]"
    using o unfolding H' out by (simp add: array_at_def store0_def)
  have "map Some (calculateRankings (Some [entry 70 ''a'', entry 90 ''b'']))
      = [Some (with_rank (entry 90 ''b'') 1), Some (with_rank (entry 70 ''a'') 2)]"
    using e unfolding H' outs by (simp add: ranked_at_def store0_def)
  then have "calculateRankings (Some [entry 70 ''a'', entry 90 ''b''])
       = [with_rank (entry 90 ''b'') 1, with_rank (entry 70 ''a'') 2]"
    by (simp add: map_eq_Cons_conv)
  then show ?thesis using a d run by blast
qed

end
